theory Spec2Isabelle
  imports Complex_Main "HOL-Library.Multiset"
begin

chapter \<open>The program\<close>

section \<open>Shared types\<close>

text \<open>
  Python floats are idealised as \<^typ>\<open>real\<close>: rounding, infinities and NaN are outside
  the model. A geographic point is a pair (latitude, longitude). The geodesic distance of
  \<^verbatim>\<open>GeoUtils.calculate_distance\<close> comes from an external library; every function below that
  needs it takes it as the parameter \<open>calculate_distance\<close>.
\<close>

type_synonym point = "real \<times> real"

datatype py_error = ValueError | IndexError | KeyError | ZeroDivisionError

text \<open>A fire as \<^verbatim>\<open>DataLoader.load_fires\<close> builds it.\<close>

record fire =
  name :: string
  lat :: real
  lng :: real
  date :: string
  time :: string
  intensity :: int

section \<open>Scenario grouping (utils.py, ScenarioGenerator.group_by_time_proximity)\<close>

text \<open>
  \<^verbatim>\<open>datetime.strptime(dt_str, "%Y-%m-%d %H:%M")\<close> is a library call; it is the parameter
  \<open>strptime\<close>, which yields the parsed instant in whole minutes (the format has no seconds
  field) or \<open>None\<close> where the library raises \<^verbatim>\<open>ValueError\<close>. The configured window is a
  JSON number.
\<close>

definition dt_str :: "fire \<Rightarrow> string" where
  "dt_str f = date f @ '' '' @ time f"

fun temp_list :: "(string \<Rightarrow> int option) \<Rightarrow> nat \<Rightarrow> fire list \<Rightarrow> py_error + (nat \<times> int) list" where
  "temp_list strptime i [] = Inr []"
| "temp_list strptime i (f # fs) =
     (case strptime (dt_str f) of
        None \<Rightarrow> Inl ValueError
      | Some dt_fmt \<Rightarrow>
          (case temp_list strptime (Suc i) fs of
             Inl e \<Rightarrow> Inl e
           | Inr r \<Rightarrow> Inr ((i, dt_fmt) # r)))"

text \<open>
  The grouping loop, with its two variables \<^verbatim>\<open>scenario_sets\<close> and \<^verbatim>\<open>current_set\<close>
  as accumulators; the result is their value when the loop ends.
\<close>

fun group_loop :: "real \<Rightarrow> (nat \<times> int) list \<Rightarrow> nat list list \<Rightarrow> (nat \<times> int) list
    \<Rightarrow> nat list list \<times> (nat \<times> int) list" where
  "group_loop time_window [] scenario_sets current_set = (scenario_sets, current_set)"
| "group_loop time_window ((idx, dt) # rest) scenario_sets current_set =
     (if current_set = [] then
        group_loop time_window rest scenario_sets (current_set @ [(idx, dt)])
      else
        (let prev_dt = snd (last current_set);
             diff_mins = real_of_int (dt - prev_dt)
         in if diff_mins \<le> time_window then
              group_loop time_window rest scenario_sets (current_set @ [(idx, dt)])
            else
              group_loop time_window rest (scenario_sets @ [map fst current_set]) [(idx, dt)]))"

definition final_group :: "nat list list \<times> (nat \<times> int) list \<Rightarrow> nat list list" where
  "final_group st =
     (case st of (scenario_sets, current_set) \<Rightarrow>
        if current_set \<noteq> [] then scenario_sets @ [map fst current_set] else scenario_sets)"

definition group_by_time_proximity ::
    "(string \<Rightarrow> int option) \<Rightarrow> real \<Rightarrow> fire list \<Rightarrow> py_error + nat list list" where
  "group_by_time_proximity strptime time_window fire_points =
     (if fire_points = [] then Inr []
      else
        (case temp_list strptime 0 fire_points of
           Inl e \<Rightarrow> Inl e
         | Inr tmp \<Rightarrow> Inr (final_group (group_loop time_window (sort_key snd tmp) [] []))))"

text \<open>The timestamp of the fire at a position of the batch.\<close>

definition stamp :: "(string \<Rightarrow> int option) \<Rightarrow> fire list \<Rightarrow> nat \<Rightarrow> int" where
  "stamp strptime fire_points i = the (strptime (dt_str (fire_points ! i)))"

text \<open>A small parser table for concrete runs: four instants of one day.\<close>

definition demo_strptime :: "string \<Rightarrow> int option" where
  "demo_strptime s =
     (if s = ''2024-04-01 10:00'' then Some 600
      else if s = ''2024-04-01 10:05'' then Some 605
      else if s = ''2024-04-01 10:30'' then Some 630
      else if s = ''2024-04-01 11:00'' then Some 660
      else None)"

definition demo_fire :: "string \<Rightarrow> real \<Rightarrow> real \<Rightarrow> string \<Rightarrow> int \<Rightarrow> fire" where
  "demo_fire n la lo t k =
     \<lparr>name = n, lat = la, lng = lo, date = ''2024-04-01'', time = t, intensity = k\<rparr>"

section \<open>Water-source routing (utils.py, GeoUtils.find_optimal_water_sources)\<close>

text \<open>What the program prints, as values.\<close>

datatype warning =
    NoWaterSources
  | InvalidBaseIndex int
  | OptimizerNotInitialized
  | CannotBuildModel
  | NoOptimalSolution
  | SolverRaised
  | CannotDispatchOptimized
  | CannotDispatchBasic

type_synonym matrix = "real list list"

text \<open>
  The innermost loop over \<^verbatim>\<open>nearest_3\<close>. \<^verbatim>\<open>best_val\<close> starts at \<^verbatim>\<open>float('inf')\<close>, which
  every total compares below: it is \<open>None\<close> here.
\<close>

fun best_loop :: "(point \<Rightarrow> point \<Rightarrow> real) \<Rightarrow> point \<Rightarrow> point \<Rightarrow> (point \<times> real) list
    \<Rightarrow> real option \<Rightarrow> real \<times> real \<times> real \<Rightarrow> real \<times> real \<times> real" where
  "best_loop calculate_distance fire_loc heli_loc [] best_val best_combo = best_combo"
| "best_loop calculate_distance fire_loc heli_loc ((water_loc, dist_fw) # rest) best_val best_combo =
     (let dist_hw = calculate_distance heli_loc water_loc;
          dist_fh = calculate_distance fire_loc heli_loc;
          total_dist = dist_hw + dist_fw + dist_fh
      in if (case best_val of None \<Rightarrow> True | Some b \<Rightarrow> total_dist < b) then
           best_loop calculate_distance fire_loc heli_loc rest (Some total_dist) (dist_hw, dist_fw, dist_fh)
         else
           best_loop calculate_distance fire_loc heli_loc rest best_val best_combo)"

text \<open>The loop over \<^verbatim>\<open>enumerate(heli_locs)\<close>: one value appended to row \<open>h_idx\<close> of each matrix.\<close>

fun heli_loop :: "(point \<Rightarrow> point \<Rightarrow> real) \<Rightarrow> point \<Rightarrow> (point \<times> real) list \<Rightarrow> nat
    \<Rightarrow> point list \<Rightarrow> matrix \<times> matrix \<times> matrix \<Rightarrow> matrix \<times> matrix \<times> matrix" where
  "heli_loop calculate_distance fire_loc nearest_3 h_idx [] ds = ds"
| "heli_loop calculate_distance fire_loc nearest_3 h_idx (heli_loc # rest) (d1, d2, d3) =
     (case best_loop calculate_distance fire_loc heli_loc nearest_3 None (0, 0, 0) of
        (c1, c2, c3) \<Rightarrow>
          heli_loop calculate_distance fire_loc nearest_3 (Suc h_idx) rest
            (d1[h_idx := d1 ! h_idx @ [c1]],
             d2[h_idx := d2 ! h_idx @ [c2]],
             d3[h_idx := d3 ! h_idx @ [c3]]))"

definition dist_list :: "(point \<Rightarrow> point \<Rightarrow> real) \<Rightarrow> point \<Rightarrow> point list \<Rightarrow> (point \<times> real) list" where
  "dist_list calculate_distance fire_loc water_pts = map (\<lambda>water_loc. (water_loc, calculate_distance fire_loc water_loc)) water_pts"

text \<open>\<^verbatim>\<open>sorted(dist_list, key=lambda x: x[1])[:3]\<close>; Python's sort is stable, as \<^const>\<open>sort_key\<close> is.\<close>

definition nearest_3 :: "(point \<Rightarrow> point \<Rightarrow> real) \<Rightarrow> point \<Rightarrow> point list \<Rightarrow> (point \<times> real) list" where
  "nearest_3 calculate_distance fire_loc water_pts = take 3 (sort_key snd (dist_list calculate_distance fire_loc water_pts))"

fun fire_loop :: "(point \<Rightarrow> point \<Rightarrow> real) \<Rightarrow> point list \<Rightarrow> point list \<Rightarrow> point list
    \<Rightarrow> matrix \<times> matrix \<times> matrix \<Rightarrow> matrix \<times> matrix \<times> matrix" where
  "fire_loop calculate_distance water_pts heli_locs [] ds = ds"
| "fire_loop calculate_distance water_pts heli_locs (fire_loc # rest) ds =
     fire_loop calculate_distance water_pts heli_locs rest
       (heli_loop calculate_distance fire_loc (nearest_3 calculate_distance fire_loc water_pts) 0 heli_locs ds)"

definition dummy_water :: "point list \<Rightarrow> point list" where
  "dummy_water fire_coords = map (\<lambda>(la, lo). (la + 1 / 100, lo + 1 / 100)) fire_coords"

text \<open>The water sources the routing works with, and what it prints on the way.\<close>

definition effective_water :: "point list \<Rightarrow> point list \<Rightarrow> warning list \<times> point list" where
  "effective_water fire_coords water_pts =
     (if water_pts = [] then ([NoWaterSources], dummy_water fire_coords) else ([], water_pts))"

definition find_optimal_water_sources :: "(point \<Rightarrow> point \<Rightarrow> real) \<Rightarrow> point list \<Rightarrow> point list
    \<Rightarrow> point list \<Rightarrow> warning list \<times> matrix \<times> matrix \<times> matrix" where
  "find_optimal_water_sources calculate_distance fire_coords water_pts heli_locs =
     (if fire_coords = [] \<or> heli_locs = [] then ([], [], [], [])
      else
        (case effective_water fire_coords water_pts of
           (printed, water_pts') \<Rightarrow>
             (let num_heli = length heli_locs;
                  d1 = replicate num_heli [];
                  d2 = replicate num_heli [];
                  d3 = replicate num_heli []
              in (printed, fire_loop calculate_distance water_pts' heli_locs fire_coords (d1, d2, d3)))))"

text \<open>A distance for concrete runs: the taxicab distance of the coordinates.\<close>

definition demo_dist :: "point \<Rightarrow> point \<Rightarrow> real" where
  "demo_dist a b = \<bar>fst a - fst b\<bar> + \<bar>snd a - snd b\<bar>"

section \<open>The optimizer's data (pyomo_optimizer.py, PyomoOptimizer)\<close>

text \<open>
  A row of the merged helicopter table \<^verbatim>\<open>heli_df\<close> (its columns, with the prefix \<open>col\<close>),
  a helipad \<^verbatim>\<open>(lat, lng, name)\<close>, and the optimizer object with the configuration values it
  reads from \<^verbatim>\<open>opt_params\<close>. The table has the default index \<open>0, 1, \<dots>\<close>.
\<close>

record heli_row =
  col_model_nm :: string
  col_base :: int
  col_speed_w1 :: real
  col_speed_w2 :: real
  col_efficiency :: real
  col_load_capa :: real
  col_time_limit :: real
  col_supp_capa :: real

type_synonym helipad = "real \<times> real \<times> string"

record optimizer =
  heli_df :: "heli_row list"
  helipads :: "helipad list"
  golden_time_minutes :: real
  fuel_rate :: real
  big_penalty :: real
  speed_w1 :: "real list"
  speed_w2 :: "real list"
  efficiency :: "real list"
  load_capa :: "real list"
  time_limit :: "real list"
  supp_capa :: "real list"
  heli_locs :: "point list"

text \<open>
  The loop of \<^verbatim>\<open>_init_parameters\<close> over the \<^verbatim>\<open>base\<close> column. On an index outside the
  helipad list it prints and returns: the locations gathered so far stay.
\<close>

fun heli_locs_loop :: "helipad list \<Rightarrow> int list \<Rightarrow> point list \<Rightarrow> warning list \<times> point list" where
  "heli_locs_loop pads [] locs = ([], locs)"
| "heli_locs_loop pads (base_idx # rest) locs =
     (if 0 \<le> base_idx \<and> base_idx < int (length pads) then
        heli_locs_loop pads rest
          (locs @ [(fst (pads ! nat base_idx), fst (snd (pads ! nat base_idx)))])
      else ([InvalidBaseIndex base_idx], locs))"

definition init_parameters :: "optimizer \<Rightarrow> warning list \<times> optimizer" where
  "init_parameters self =
     (case heli_locs_loop (helipads self) (map col_base (heli_df self)) [] of
        (printed, locs) \<Rightarrow>
          (printed,
           self\<lparr>speed_w1 := map col_speed_w1 (heli_df self),
                speed_w2 := map col_speed_w2 (heli_df self),
                efficiency := map col_efficiency (heli_df self),
                load_capa := map col_load_capa (heli_df self),
                time_limit := map col_time_limit (heli_df self),
                supp_capa := map col_supp_capa (heli_df self),
                heli_locs := locs\<rparr>))"

text \<open>\<^verbatim>\<open>PyomoOptimizer.__init__\<close>, from the loaded tables and the configuration.\<close>

definition new_optimizer :: "heli_row list \<Rightarrow> helipad list \<Rightarrow> real \<Rightarrow> real \<Rightarrow> real
    \<Rightarrow> warning list \<times> optimizer" where
  "new_optimizer df pads golden rate penalty =
     (let self = \<lparr>heli_df = df, helipads = pads, golden_time_minutes = golden,
                  fuel_rate = rate, big_penalty = penalty,
                  speed_w1 = [], speed_w2 = [], efficiency = [], load_capa = [],
                  time_limit = [], supp_capa = [], heli_locs = []\<rparr>
      in if df \<noteq> [] \<and> pads \<noteq> [] then init_parameters self
         else ([OptimizerNotInitialized], self))"

section \<open>Time and cost matrices (PyomoOptimizer.calculate_time_matrices)\<close>

text \<open>
  List indexing and division as Python has them: an index past the end raises
  \<^verbatim>\<open>IndexError\<close>, a zero divisor raises \<^verbatim>\<open>ZeroDivisionError\<close>. All indices here come from
  \<^verbatim>\<open>range\<close>, so none is negative.
\<close>

definition nth_err :: "'a list \<Rightarrow> nat \<Rightarrow> py_error + 'a" where
  "nth_err xs i = (if i < length xs then Inr (xs ! i) else Inl IndexError)"

definition py_div :: "real \<Rightarrow> real \<Rightarrow> py_error + real" where
  "py_div a b = (if b = 0 then Inl ZeroDivisionError else Inr (a / b))"

definition bind_err :: "'e + 'a \<Rightarrow> ('a \<Rightarrow> 'e + 'b) \<Rightarrow> 'e + 'b" where
  "bind_err m k = (case m of Inl e \<Rightarrow> Inl e | Inr x \<Rightarrow> k x)"

text \<open>A list comprehension whose element expression may raise: the first error ends it.\<close>

fun map_err :: "('a \<Rightarrow> 'e + 'b) \<Rightarrow> 'a list \<Rightarrow> 'e + 'b list" where
  "map_err g [] = Inr []"
| "map_err g (x # xs) = bind_err (g x) (\<lambda>y. bind_err (map_err g xs) (\<lambda>ys. Inr (y # ys)))"

text \<open>\<^verbatim>\<open>d[h][f] / speed[h]\<close>, evaluated left to right.\<close>

definition leg_time :: "matrix \<Rightarrow> real list \<Rightarrow> nat \<Rightarrow> nat \<Rightarrow> py_error + real" where
  "leg_time d speed h f =
     bind_err (nth_err d h) (\<lambda>row.
     bind_err (nth_err row f) (\<lambda>x.
     bind_err (nth_err speed h) (\<lambda>s. py_div x s)))"

definition time_cell :: "optimizer \<Rightarrow> matrix \<Rightarrow> matrix \<Rightarrow> matrix \<Rightarrow> nat \<Rightarrow> nat \<Rightarrow> py_error + real" where
  "time_cell self d1 d2 d3 h f =
     bind_err (leg_time d1 (speed_w1 self) h f) (\<lambda>a.
     bind_err (leg_time d2 (speed_w2 self) h f) (\<lambda>b.
     bind_err (leg_time d3 (speed_w1 self) h f) (\<lambda>c. Inr (a + b + c))))"

definition cost_cell :: "optimizer \<Rightarrow> matrix \<Rightarrow> nat \<Rightarrow> nat \<Rightarrow> py_error + real" where
  "cost_cell self time_hf_list h f =
     bind_err (nth_err (efficiency self) h) (\<lambda>e.
     bind_err (nth_err time_hf_list h) (\<lambda>row.
     bind_err (nth_err row f) (\<lambda>t. Inr (fuel_rate self * e * t))))"

definition arrival_cell :: "optimizer \<Rightarrow> matrix \<Rightarrow> matrix \<Rightarrow> nat \<Rightarrow> nat \<Rightarrow> py_error + real" where
  "arrival_cell self d1 d2 h f =
     bind_err (leg_time d1 (speed_w1 self) h f) (\<lambda>a.
     bind_err (leg_time d2 (speed_w2 self) h f) (\<lambda>b. Inr (a + b)))"

definition table_err :: "(nat \<Rightarrow> nat \<Rightarrow> py_error + real) \<Rightarrow> nat \<Rightarrow> nat \<Rightarrow> py_error + matrix" where
  "table_err cell n_heli n_fire =
     map_err (\<lambda>h. map_err (\<lambda>f. cell h f) [0 ..< n_fire]) [0 ..< n_heli]"

definition calculate_time_matrices :: "optimizer \<Rightarrow> matrix \<Rightarrow> matrix \<Rightarrow> matrix \<Rightarrow> nat list
    \<Rightarrow> py_error + matrix \<times> matrix \<times> matrix" where
  "calculate_time_matrices self d1 d2 d3 fire_indices =
     (let n_heli = length (heli_locs self); n_fire = length fire_indices in
      bind_err (table_err (time_cell self d1 d2 d3) n_heli n_fire) (\<lambda>time_hf_list.
      bind_err (table_err (cost_cell self time_hf_list) n_heli n_fire) (\<lambda>cost_hf_list.
      bind_err (table_err (arrival_cell self d1 d2) n_heli n_fire) (\<lambda>arrival_time_hf_list.
      Inr (time_hf_list, cost_hf_list, arrival_time_hf_list)))))"

section \<open>The assignment model (PyomoOptimizer.build_model and its rules)\<close>

text \<open>
  The Pyomo model as data. A variable is one of the three indexed families; an expression
  is a list of (coefficient, variable) terms plus a constant; a constraint relates two
  expressions. A rule that returns \<^verbatim>\<open>Constraint.Skip\<close> returns \<open>None\<close>. An indexed constraint
  component is the list of its (index, constraint) entries.
\<close>

datatype var = Assign nat nat | FireOn nat | AssignFire nat nat

type_synonym linexp = "(real \<times> var) list \<times> real"

datatype relation = LE | EQ | GE

datatype constr = Constr linexp relation linexp

record model =
  H :: "nat list"
  F :: "nat list"
  time_hf :: matrix
  cost_hf :: matrix
  arrival_time_hf :: matrix
  difficulties :: "real list"
  SUPP_CAPA :: "real list"
  TIME_LIMIT :: "real list"
  AssignFire_ub1 :: "((nat \<times> nat) \<times> constr) list"
  AssignFire_ub2 :: "((nat \<times> nat) \<times> constr) list"
  AssignFire_lb :: "((nat \<times> nat) \<times> constr) list"
  objective :: linexp
  golden_time_constraint :: "((nat \<times> nat) \<times> constr) list"
  time_limit_constraint :: "((nat \<times> nat) \<times> constr) list"
  suppression_constraint :: "(nat \<times> constr) list"
  one_assignment_constraint :: "(nat \<times> constr) list"

definition assign_is_zero :: "nat \<Rightarrow> nat \<Rightarrow> constr" where
  "assign_is_zero h f = Constr ([(1, Assign h f)], 0) EQ ([], 0)"

text \<open>
  The rules read the model's parameters at indices of \<open>H\<close> and \<open>F\<close>, which
  \<open>build_model\<close> below fills for exactly those indices.
\<close>

definition golden_time_rule :: "optimizer \<Rightarrow> model \<Rightarrow> nat \<Rightarrow> nat \<Rightarrow> constr option" where
  "golden_time_rule self m h f =
     (if arrival_time_hf m ! h ! f > golden_time_minutes self then Some (assign_is_zero h f)
      else None)"

definition time_limit_rule :: "model \<Rightarrow> nat \<Rightarrow> nat \<Rightarrow> constr option" where
  "time_limit_rule m h f =
     (if time_hf m ! h ! f > TIME_LIMIT m ! h then Some (assign_is_zero h f) else None)"

definition suppression_rule :: "model \<Rightarrow> nat \<Rightarrow> constr option" where
  "suppression_rule m f =
     Some (Constr ([(difficulties m ! f, FireOn f)], 0) LE
                  (map (\<lambda>h. (SUPP_CAPA m ! h, Assign h f)) (H m), 0))"

definition one_assignment_rule :: "model \<Rightarrow> nat \<Rightarrow> constr option" where
  "one_assignment_rule m h =
     Some (Constr (map (\<lambda>f. (1, Assign h f)) (F m), 0) LE ([], 1))"

definition assignfire_upper_bound1 :: "model \<Rightarrow> nat \<Rightarrow> nat \<Rightarrow> constr option" where
  "assignfire_upper_bound1 m h f =
     Some (Constr ([(1, AssignFire h f)], 0) LE ([(1, Assign h f)], 0))"

definition assignfire_upper_bound2 :: "model \<Rightarrow> nat \<Rightarrow> nat \<Rightarrow> constr option" where
  "assignfire_upper_bound2 m h f =
     Some (Constr ([(1, AssignFire h f)], 0) LE ([(1, FireOn f)], 0))"

definition assignfire_lower_bound :: "model \<Rightarrow> nat \<Rightarrow> nat \<Rightarrow> constr option" where
  "assignfire_lower_bound m h f =
     Some (Constr ([(1, AssignFire h f)], 0) GE ([(1, Assign h f), (1, FireOn f)], - 1))"

definition objective_rule :: "optimizer \<Rightarrow> model \<Rightarrow> linexp" where
  "objective_rule self m =
     (concat (map (\<lambda>h. map (\<lambda>f. (cost_hf m ! h ! f, AssignFire h f)) (F m)) (H m))
        @ map (\<lambda>f. (- big_penalty self, FireOn f)) (F m),
      big_penalty self * real (length (F m)))"

text \<open>\<^verbatim>\<open>Constraint(index sets, rule=...)\<close>: the rule at every index, skipped entries left out.\<close>

definition Constraint :: "'i list \<Rightarrow> ('i \<Rightarrow> constr option) \<Rightarrow> ('i \<times> constr) list" where
  "Constraint idxs rule =
     concat (map (\<lambda>i. case rule i of None \<Rightarrow> [] | Some c \<Rightarrow> [(i, c)]) idxs)"

text \<open>
  The solver is an external program: it is the parameter \<open>solve\<close>, which answers with a
  termination condition and the variables' values (\<open>None\<close> for a variable left without a
  value), or raises.
\<close>

datatype termination_condition = optimal | infeasible | unbounded | other

datatype solve_result = Solved termination_condition "var \<Rightarrow> real option" | Raised

text \<open>The model up to the solver call; the only failures are those of the indexing.\<close>

definition formulate :: "optimizer \<Rightarrow> nat list \<Rightarrow> int list \<Rightarrow> matrix \<Rightarrow> matrix \<Rightarrow> matrix
    \<Rightarrow> py_error + model \<times> matrix \<times> matrix" where
  "formulate self fire_indices difficulties_in d1 d2 d3 =
     (let hs = [0 ..< length (heli_locs self)];
          fs = [0 ..< length fire_indices];
          hf = concat (map (\<lambda>h. map (\<lambda>f. (h, f)) fs) hs)
      in
      bind_err (calculate_time_matrices self d1 d2 d3 fire_indices)
        (\<lambda>(time_hf_list, cost_hf_list, arrival_time_hf_list).
      bind_err (map_err (\<lambda>f. nth_err difficulties_in f) fs) (\<lambda>diffs.
      bind_err (map_err (\<lambda>h. nth_err (supp_capa self) h) hs) (\<lambda>supp.
      bind_err (map_err (\<lambda>h. nth_err (time_limit self) h) hs) (\<lambda>limit.
        (let m0 = \<lparr>H = hs, F = fs,
                    time_hf = time_hf_list, cost_hf = cost_hf_list,
                    arrival_time_hf = arrival_time_hf_list,
                    difficulties = map real_of_int diffs,
                    SUPP_CAPA = supp, TIME_LIMIT = limit,
                    AssignFire_ub1 = [], AssignFire_ub2 = [], AssignFire_lb = [],
                    objective = ([], 0),
                    golden_time_constraint = [], time_limit_constraint = [],
                    suppression_constraint = [], one_assignment_constraint = []\<rparr>;
             m1 = m0\<lparr>AssignFire_ub1 := Constraint hf (\<lambda>(h, f). assignfire_upper_bound1 m0 h f)\<rparr>;
             m2 = m1\<lparr>AssignFire_ub2 := Constraint hf (\<lambda>(h, f). assignfire_upper_bound2 m1 h f)\<rparr>;
             m3 = m2\<lparr>AssignFire_lb := Constraint hf (\<lambda>(h, f). assignfire_lower_bound m2 h f)\<rparr>;
             m4 = m3\<lparr>objective := objective_rule self m3\<rparr>;
             m5 = m4\<lparr>golden_time_constraint := Constraint hf (\<lambda>(h, f). golden_time_rule self m4 h f)\<rparr>;
             m6 = m5\<lparr>time_limit_constraint := Constraint hf (\<lambda>(h, f). time_limit_rule m5 h f)\<rparr>;
             m7 = m6\<lparr>suppression_constraint := Constraint fs (suppression_rule m6)\<rparr>;
             m8 = m7\<lparr>one_assignment_constraint := Constraint hs (one_assignment_rule m7)\<rparr>
         in Inr (m8, cost_hf_list, time_hf_list)))))))"

text \<open>
  \<^verbatim>\<open>build_model\<close>: the guard, the formulation, the solver call inside \<^verbatim>\<open>try\<close>. The result
  \<open>None\<close> is the source's \<^verbatim>\<open>(None, None, None)\<close>; a solved model comes with its values.
\<close>

type_synonym solved = "model \<times> (var \<Rightarrow> real option)"

definition build_model :: "optimizer \<Rightarrow> (model \<Rightarrow> solve_result) \<Rightarrow> nat list \<Rightarrow> int list
    \<Rightarrow> matrix \<Rightarrow> matrix \<Rightarrow> matrix
    \<Rightarrow> py_error + warning list \<times> (solved \<times> matrix \<times> matrix) option" where
  "build_model self solve fire_indices difficulties_in d1 d2 d3 =
     (if fire_indices = [] \<or> heli_df self = [] \<or> heli_locs self = [] then
        Inr ([CannotBuildModel], None)
      else
        bind_err (formulate self fire_indices difficulties_in d1 d2 d3)
          (\<lambda>(m, cost_hf_list, time_hf_list).
             (case solve m of
                Raised \<Rightarrow> Inr ([SolverRaised], None)
              | Solved condition vals \<Rightarrow>
                  if condition \<noteq> optimal then Inr ([NoOptimalSolution], None)
                  else Inr ([], Some ((m, vals), cost_hf_list, time_hf_list)))))"

section \<open>What a solution of the model is\<close>

definition eval_linexp :: "(var \<Rightarrow> real) \<Rightarrow> linexp \<Rightarrow> real" where
  "eval_linexp v e = sum_list (map (\<lambda>(a, x). a * v x) (fst e)) + snd e"

fun holds :: "(var \<Rightarrow> real) \<Rightarrow> constr \<Rightarrow> bool" where
  "holds v (Constr l LE r) = (eval_linexp v l \<le> eval_linexp v r)"
| "holds v (Constr l EQ r) = (eval_linexp v l = eval_linexp v r)"
| "holds v (Constr l GE r) = (eval_linexp v l \<ge> eval_linexp v r)"

definition all_constraints :: "model \<Rightarrow> constr list" where
  "all_constraints m =
     map snd (AssignFire_ub1 m) @ map snd (AssignFire_ub2 m) @ map snd (AssignFire_lb m)
       @ map snd (golden_time_constraint m) @ map snd (time_limit_constraint m)
       @ map snd (suppression_constraint m) @ map snd (one_assignment_constraint m)"

definition satisfies :: "model \<Rightarrow> (var \<Rightarrow> real) \<Rightarrow> bool" where
  "satisfies m v = list_all (holds v) (all_constraints m)"

section \<open>Reading the solution (PyomoOptimizer.parse_solution)\<close>

text \<open>
  A row of the report table. A committed row has the nine columns that
  \<^verbatim>\<open>parse_solution\<close> writes; the row added for a fire without one has the fire index and
  the marker text in the model column only. \<^verbatim>\<open>round(x, 2)\<close> is the parameter \<open>round2\<close>.
\<close>

record assignment =
  fire_index :: nat
  hel_index :: nat
  heli_model :: string
  heli_base :: string
  dist1 :: real
  dist2 :: real
  dist3 :: real
  travel_time :: real
  fuel_cost :: real

datatype report_row = Committed assignment | Unaddressed nat

fun row_fire_index :: "report_row \<Rightarrow> nat" where
  "row_fire_index (Committed a) = fire_index a"
| "row_fire_index (Unaddressed i) = i"

fun add_to_fire_index :: "nat \<Rightarrow> report_row \<Rightarrow> report_row" where
  "add_to_fire_index k (Committed a) = Committed (a\<lparr>fire_index := fire_index a + k\<rparr>)"
| "add_to_fire_index k (Unaddressed i) = Unaddressed (i + k)"

definition nth2_err :: "matrix \<Rightarrow> nat \<Rightarrow> nat \<Rightarrow> py_error + real" where
  "nth2_err d h f = bind_err (nth_err d h) (\<lambda>row. nth_err row f)"

text \<open>\<^verbatim>\<open>self.heli_df.loc[h, column]\<close>: a label that is not in the index raises \<^verbatim>\<open>KeyError\<close>.\<close>

definition loc :: "heli_row list \<Rightarrow> nat \<Rightarrow> py_error + heli_row" where
  "loc df h = (if h < length df then Inr (df ! h) else Inl KeyError)"

definition base_name_of :: "helipad list \<Rightarrow> int \<Rightarrow> string" where
  "base_name_of pads base_idx =
     (if 0 \<le> base_idx \<and> base_idx < int (length pads) then snd (snd (pads ! nat base_idx))
      else ''UnknownBase'')"

text \<open>The body of the double loop at one pair: a row, or nothing when the test fails.\<close>

definition parse_cell :: "optimizer \<Rightarrow> (real \<Rightarrow> real) \<Rightarrow> (var \<Rightarrow> real option) \<Rightarrow> matrix \<Rightarrow> matrix
    \<Rightarrow> matrix \<Rightarrow> matrix \<Rightarrow> matrix \<Rightarrow> nat \<Rightarrow> nat \<Rightarrow> nat \<Rightarrow> py_error + assignment option" where
  "parse_cell self round2 vals cost_hf_list time_hf_list d1 d2 d3 offset_index h f =
     (if (case vals (Assign h f) of None \<Rightarrow> False | Some x \<Rightarrow> x > 1 / 2) then
        bind_err (nth2_err d1 h f) (\<lambda>x1.
        bind_err (nth2_err d2 h f) (\<lambda>x2.
        bind_err (nth2_err d3 h f) (\<lambda>x3.
        bind_err (nth2_err time_hf_list h f) (\<lambda>t.
        bind_err (nth2_err cost_hf_list h f) (\<lambda>c.
        bind_err (loc (heli_df self) h) (\<lambda>r.
          Inr (Some \<lparr>fire_index = offset_index + f,
                     hel_index = h + 1,
                     heli_model = col_model_nm r,
                     heli_base = base_name_of (helipads self) (col_base r),
                     dist1 = round2 x1, dist2 = round2 x2, dist3 = round2 x3,
                     travel_time = round2 t, fuel_cost = round2 c\<rparr>)))))))
      else Inr None)"

definition index_pairs :: "nat list \<Rightarrow> nat list \<Rightarrow> (nat \<times> nat) list" where
  "index_pairs hs fs = concat (map (\<lambda>h. map (\<lambda>f. (h, f)) fs) hs)"

text \<open>
  The table is sorted by fire index at the end. pandas' default sort does not promise the
  order of rows with equal keys; the model keeps them in their order.
\<close>

definition parse_solution :: "optimizer \<Rightarrow> (real \<Rightarrow> real) \<Rightarrow> solved option \<Rightarrow> matrix \<Rightarrow> matrix
    \<Rightarrow> matrix \<Rightarrow> matrix \<Rightarrow> matrix \<Rightarrow> nat \<Rightarrow> py_error + assignment list" where
  "parse_solution self round2 sm cost_hf_list time_hf_list d1 d2 d3 offset_index =
     (case sm of
        None \<Rightarrow> Inr []
      | Some (m, vals) \<Rightarrow>
          bind_err (map_err (\<lambda>(h, f). parse_cell self round2 vals cost_hf_list time_hf_list
                                        d1 d2 d3 offset_index h f)
                            (index_pairs (H m) (F m)))
            (\<lambda>cells. Inr (sort_key fire_index (concat (map (\<lambda>c. case c of None \<Rightarrow> [] | Some a \<Rightarrow> [a]) cells)))))"

section \<open>The optimized dispatch (dispatcher.py, WildfireDispatcher.dispatch_optimized)\<close>

text \<open>
  The rows added for the fires of a group that no row of the solution names. The source
  iterates over a Python set; the model visits the group's indices in the group's order.
\<close>

definition unassigned_fires :: "nat list \<Rightarrow> assignment list \<Rightarrow> nat list" where
  "unassigned_fires grp solution_df =
     filter (\<lambda>fidx. fidx \<notin> set (map fire_index solution_df)) (remdups grp)"

definition handle_unassigned :: "nat list \<Rightarrow> assignment list \<Rightarrow> report_row list" where
  "handle_unassigned grp solution_df =
     (if solution_df \<noteq> [] then
        map Committed solution_df @ map Unaddressed (unassigned_fires grp solution_df)
      else [])"

text \<open>One pass of the loop over the scenario groups: what it prints and the rows it adds.\<close>

definition group_pass :: "optimizer \<Rightarrow> (point \<Rightarrow> point \<Rightarrow> real) \<Rightarrow> (real \<Rightarrow> real)
    \<Rightarrow> (model \<Rightarrow> solve_result) \<Rightarrow> fire list \<Rightarrow> point list \<Rightarrow> nat list
    \<Rightarrow> py_error + warning list \<times> report_row list" where
  "group_pass self calculate_distance round2 solve fire_points water_pts grp =
     bind_err (map_err (\<lambda>fidx. nth_err fire_points fidx) grp) (\<lambda>fires.
       (let fire_coords = map (\<lambda>p. (lat p, lng p)) fires;
            difficulties_in = map intensity fires
        in case find_optimal_water_sources calculate_distance fire_coords water_pts (heli_locs self) of
             (printed1, d1, d2, d3) \<Rightarrow>
               bind_err (build_model self solve grp difficulties_in d1 d2 d3)
                 (\<lambda>(printed2, built).
                    (case built of
                       None \<Rightarrow> Inr (printed1 @ printed2, [])
                     | Some (sm, cost_hf_list, time_hf_list) \<Rightarrow>
                         bind_err (parse_solution self round2 (Some sm) cost_hf_list time_hf_list
                                     d1 d2 d3 (min_list grp))
                           (\<lambda>solution_df.
                              Inr (printed1 @ printed2, handle_unassigned grp solution_df))))))"

fun groups_loop :: "optimizer \<Rightarrow> (point \<Rightarrow> point \<Rightarrow> real) \<Rightarrow> (real \<Rightarrow> real)
    \<Rightarrow> (model \<Rightarrow> solve_result) \<Rightarrow> fire list \<Rightarrow> point list \<Rightarrow> nat list list
    \<Rightarrow> warning list \<times> report_row list \<Rightarrow> py_error + warning list \<times> report_row list" where
  "groups_loop self calculate_distance round2 solve fire_points water_pts [] acc = Inr acc"
| "groups_loop self calculate_distance round2 solve fire_points water_pts (grp # rest) (printed, result_df) =
     bind_err (group_pass self calculate_distance round2 solve fire_points water_pts grp)
       (\<lambda>(printed', solution_df).
          groups_loop self calculate_distance round2 solve fire_points water_pts rest
            (printed @ printed', result_df @ solution_df))"

definition finalize :: "report_row list \<Rightarrow> report_row list" where
  "finalize result_df =
     (if result_df \<noteq> [] then map (add_to_fire_index 1) (sort_key row_fire_index result_df)
      else result_df)"

definition dispatch_optimized :: "optimizer \<Rightarrow> (point \<Rightarrow> point \<Rightarrow> real) \<Rightarrow> (real \<Rightarrow> real)
    \<Rightarrow> (model \<Rightarrow> solve_result) \<Rightarrow> (string \<Rightarrow> int option) \<Rightarrow> real \<Rightarrow> point list \<Rightarrow> fire list
    \<Rightarrow> py_error + warning list \<times> report_row list" where
  "dispatch_optimized self calculate_distance round2 solve strptime time_window water_pts fire_points =
     (if fire_points = [] then Inr ([], [])
      else if heli_df self = [] \<or> heli_locs self = [] then Inr ([CannotDispatchOptimized], [])
      else
        bind_err (group_by_time_proximity strptime time_window fire_points) (\<lambda>scenario_sets.
        bind_err (groups_loop self calculate_distance round2 solve fire_points water_pts
                    scenario_sets ([], []))
          (\<lambda>(printed, result_df). Inr (printed, finalize result_df))))"

section \<open>The greedy dispatch (dispatcher.py, BasicDispatcher.dispatch)\<close>

text \<open>
  A row of the helicopter table of the greedy path, and a row of its log. The two marker
  texts of the \<^verbatim>\<open>Heli Base\<close> column are constructors; the \<^verbatim>\<open>Heli Count\<close> column holds either
  the number 0 or the text \<^verbatim>\<open>to_send/helicopters\<close>. The number of helicopters a fire
  needs is drawn by \<^verbatim>\<open>random.choices\<close>, once per fire: \<open>draw k\<close> is the k-th draw.
\<close>

record base_row =
  base_name :: string
  base_model :: string
  base_lat :: real
  base_lng :: real
  helicopters :: int

datatype base_col = NoInitialResponse | NoAdditionalDispatch | BaseName string

datatype count_col = Zero | Sent int int

record log_row =
  log_fire :: string
  log_base :: base_col
  log_model :: string
  log_count :: count_col

definition marker :: "fire \<Rightarrow> base_col \<Rightarrow> log_row" where
  "marker fr b = \<lparr>log_fire = name fr, log_base = b, log_model = ''N/A'', log_count = Zero\<rparr>"

text \<open>
  \<^verbatim>\<open>near_heli\<close>: the rows within range with their labels and the availability they had when
  the table was filtered, sorted by distance. pandas' default sort does not promise the
  order of equally distant rows; the model keeps them in table order.
\<close>

definition base_distance :: "(point \<Rightarrow> point \<Rightarrow> real) \<Rightarrow> fire \<Rightarrow> base_row \<Rightarrow> real" where
  "base_distance calculate_distance fr hp =
     calculate_distance (lat fr, lng fr) (base_lat hp, base_lng hp)"

definition near_heli :: "(point \<Rightarrow> point \<Rightarrow> real) \<Rightarrow> real \<Rightarrow> fire \<Rightarrow> base_row list \<Rightarrow> int list
    \<Rightarrow> (nat \<times> base_row \<times> int) list" where
  "near_heli calculate_distance max_range fr rows available =
     sort_key (\<lambda>(label, hp, a). base_distance calculate_distance fr hp)
       (filter (\<lambda>(label, hp, a). base_distance calculate_distance fr hp \<le> max_range)
          (zip [0 ..< length rows] (zip rows available)))"

text \<open>The allocation loop over the rows of \<^verbatim>\<open>near_heli\<close>.\<close>

fun allocate :: "fire \<Rightarrow> (nat \<times> base_row \<times> int) list \<Rightarrow> int \<Rightarrow> int list \<times> log_row list
    \<Rightarrow> int list \<times> log_row list" where
  "allocate fr [] needed st = st"
| "allocate fr ((label, hp, a) # rest) needed (available, dispatch_log) =
     (if needed \<le> 0 then (available, dispatch_log)
      else if a > 0 then
        (let to_send = min needed a in
         allocate fr rest (needed - to_send)
           (available[label := available ! label - to_send],
            dispatch_log @ [\<lparr>log_fire = name fr, log_base = BaseName (base_name hp),
                             log_model = base_model hp,
                             log_count = Sent to_send (helicopters hp)\<rparr>]))
      else allocate fr rest needed (available, dispatch_log))"

text \<open>The body of the loop over the fires.\<close>

definition dispatch_fire :: "(point \<Rightarrow> point \<Rightarrow> real) \<Rightarrow> real \<Rightarrow> base_row list \<Rightarrow> int \<Rightarrow> fire
    \<Rightarrow> int list \<times> log_row list \<Rightarrow> int list \<times> log_row list" where
  "dispatch_fire calculate_distance max_range rows needed fr st =
     (case st of (available, dispatch_log) \<Rightarrow>
        (let near = near_heli calculate_distance max_range fr rows available in
         if near = [] then (available, dispatch_log @ [marker fr NoInitialResponse])
         else if sum_list (map (\<lambda>(label, hp, a). a) near) < needed then
           (available, dispatch_log @ [marker fr NoAdditionalDispatch])
         else allocate fr near needed (available, dispatch_log)))"

fun fires_loop :: "(point \<Rightarrow> point \<Rightarrow> real) \<Rightarrow> real \<Rightarrow> base_row list \<Rightarrow> (nat \<Rightarrow> int) \<Rightarrow> nat
    \<Rightarrow> fire list \<Rightarrow> int list \<times> log_row list \<Rightarrow> int list \<times> log_row list" where
  "fires_loop calculate_distance max_range rows draw k [] st = st"
| "fires_loop calculate_distance max_range rows draw k (fr # rest) st =
     fires_loop calculate_distance max_range rows draw (Suc k) rest
       (dispatch_fire calculate_distance max_range rows (draw k) fr st)"

text \<open>The ledger and the log when the run ends; the source returns the log.\<close>

definition dispatch_run :: "(point \<Rightarrow> point \<Rightarrow> real) \<Rightarrow> real \<Rightarrow> base_row list \<Rightarrow> (nat \<Rightarrow> int)
    \<Rightarrow> fire list \<Rightarrow> int list \<times> log_row list" where
  "dispatch_run calculate_distance max_range rows draw fire_points =
     fires_loop calculate_distance max_range rows draw 0 fire_points (map helicopters rows, [])"

definition dispatch :: "(point \<Rightarrow> point \<Rightarrow> real) \<Rightarrow> real \<Rightarrow> base_row list \<Rightarrow> (nat \<Rightarrow> int)
    \<Rightarrow> fire list \<Rightarrow> warning list \<times> log_row list" where
  "dispatch calculate_distance max_range rows draw fire_points =
     (if fire_points = [] then ([], [])
      else if rows = [] then ([CannotDispatchBasic], [])
      else ([], snd (dispatch_run calculate_distance max_range rows draw fire_points)))"

section \<open>Predicates and sample data used in the statements\<close>

text \<open>The gap test of the loop, on fire indices.\<close>

definition close_enough :: "real \<Rightarrow> (nat \<Rightarrow> int) \<Rightarrow> nat \<Rightarrow> nat \<Rightarrow> bool" where
  "close_enough w ts a b = (real_of_int (ts b - ts a) \<le> w)"

definition grouped :: "real \<Rightarrow> (nat \<Rightarrow> int) \<Rightarrow> nat list list \<Rightarrow> bool" where
  "grouped w ts gs =
     ([] \<notin> set gs \<and> (\<forall>g \<in> set gs. successively (close_enough w ts) g)
      \<and> successively (\<lambda>g h. \<not> close_enough w ts (last g) (hd h)) gs)"

definition demo_fires :: "fire list" where
  "demo_fires = [demo_fire ''A'' 0 0 ''10:30'' 1, demo_fire ''B'' 0 0 ''10:00'' 1,
                 demo_fire ''C'' 0 0 ''10:05'' 1]"

text \<open>The inputs on which \<open>calculate_time_matrices\<close> raises nothing.\<close>

definition routable :: "optimizer \<Rightarrow> matrix \<Rightarrow> matrix \<Rightarrow> matrix \<Rightarrow> nat \<Rightarrow> bool" where
  "routable self d1 d2 d3 n_fire =
     list_all (\<lambda>h.
        h < length (speed_w1 self) \<and> h < length (speed_w2 self) \<and> h < length (efficiency self)
        \<and> (0 < n_fire \<longrightarrow> speed_w1 self ! h \<noteq> 0 \<and> speed_w2 self ! h \<noteq> 0)
        \<and> h < length d1 \<and> h < length d2 \<and> h < length d3
        \<and> n_fire \<le> length (d1 ! h) \<and> n_fire \<le> length (d2 ! h) \<and> n_fire \<le> length (d3 ! h))
       [0 ..< length (heli_locs self)]"

text \<open>A fleet of one helicopter at one helipad, for concrete runs.\<close>

definition demo_row :: heli_row where
  "demo_row = \<lparr>col_model_nm = ''KA-32'', col_base = 0, col_speed_w1 = 2, col_speed_w2 = 1,
               col_efficiency = 3, col_load_capa = 1, col_time_limit = 100, col_supp_capa = 2\<rparr>"

definition demo_pads :: "helipad list" where
  "demo_pads = [(0, 0, ''Alpha'')]"

definition demo_optimizer :: optimizer where
  "demo_optimizer = snd (new_optimizer [demo_row] demo_pads 30 (1 / 2) 1000)"

text \<open>The valuation that sets every variable to 1.\<close>

definition all_ones :: "var \<Rightarrow> real" where
  "all_ones x = 1"

text \<open>
  A base index that names a helipad, the point of that helipad, and the locations the
  helicopters would get if only those with an invalid base index were left out.
\<close>

definition valid_base :: "helipad list \<Rightarrow> int \<Rightarrow> bool" where
  "valid_base pads base_idx = (0 \<le> base_idx \<and> base_idx < int (length pads))"

definition pad_point :: "helipad list \<Rightarrow> int \<Rightarrow> point" where
  "pad_point pads base_idx = (fst (pads ! nat base_idx), fst (snd (pads ! nat base_idx)))"

definition locs_skipping_invalid :: "helipad list \<Rightarrow> int list \<Rightarrow> point list" where
  "locs_skipping_invalid pads bases = map (pad_point pads) (filter (valid_base pads) bases)"

text \<open>Three helicopters; the second names a helipad that does not exist.\<close>

definition demo_fleet :: "heli_row list" where
  "demo_fleet = [demo_row, demo_row\<lparr>col_base := 7\<rparr>, demo_row]"

text \<open>
  The router's choices in the words of the design. \<open>smallest_first n key xs\<close> selects up to
  \<open>n\<close> elements of \<open>xs\<close> by taking, again and again, the element of least key, the earliest
  in \<open>xs\<close> among equals (\<^const>\<open>arg_min_list\<close> returns the leftmost minimum), and removing it.
  \<open>round_trip\<close> is the total of the three legs through a candidate, and \<open>legs\<close> are the legs.
\<close>

fun smallest_first :: "nat \<Rightarrow> ('a \<Rightarrow> real) \<Rightarrow> 'a list \<Rightarrow> 'a list" where
  "smallest_first 0 key xs = []"
| "smallest_first (Suc n) key xs =
     (if xs = [] then []
      else (let m = arg_min_list key xs in m # smallest_first n key (remove1 m xs)))"

definition round_trip :: "(point \<Rightarrow> point \<Rightarrow> real) \<Rightarrow> point \<Rightarrow> point \<Rightarrow> point \<times> real \<Rightarrow> real" where
  "round_trip calculate_distance fire_loc heli_loc c =
     calculate_distance heli_loc (fst c) + snd c + calculate_distance fire_loc heli_loc"

definition legs :: "(point \<Rightarrow> point \<Rightarrow> real) \<Rightarrow> point \<Rightarrow> point \<Rightarrow> point \<times> real
    \<Rightarrow> real \<times> real \<times> real" where
  "legs calculate_distance fire_loc heli_loc c =
     (calculate_distance heli_loc (fst c), snd c, calculate_distance fire_loc heli_loc)"

text \<open>The triple the router stores for one fire and one helicopter.\<close>

definition best_combo :: "(point \<Rightarrow> point \<Rightarrow> real) \<Rightarrow> point list \<Rightarrow> point \<Rightarrow> point
    \<Rightarrow> real \<times> real \<times> real" where
  "best_combo calculate_distance water_pts fire_loc heli_loc =
     best_loop calculate_distance fire_loc heli_loc
       (nearest_3 calculate_distance fire_loc water_pts) None (0, 0, 0)"



text \<open>
  Two bases for concrete runs of the greedy path, with two and one helicopters, a fire one
  unit from the first base and a fire far from both.
\<close>

definition demo_bases :: "base_row list" where
  "demo_bases =
     [\<lparr>base_name = ''North'', base_model = ''KA-32'', base_lat = 0, base_lng = 0, helicopters = 2\<rparr>,
      \<lparr>base_name = ''South'', base_model = ''S-64'', base_lat = 0, base_lng = 10, helicopters = 1\<rparr>]"

definition demo_near :: fire where
  "demo_near = demo_fire ''F1'' 0 1 ''10:00'' 1"

definition demo_far :: fire where
  "demo_far = demo_fire ''F2'' 100 100 ''10:05'' 1"



text \<open>
  A solver for concrete runs. On a model of two fires it reports an optimal solution that
  sends helicopter 0 to the fire at position 1 of the group; on any other model it reports
  infeasibility.
\<close>

definition demo_vals :: "var \<Rightarrow> real option" where
  "demo_vals x =
     (if x = Assign 0 1 \<or> x = FireOn 1 \<or> x = AssignFire 0 1 then Some 1 else Some 0)"

definition demo_solve :: "model \<Rightarrow> solve_result" where
  "demo_solve m =
     (if length (F m) = 2 then Solved optimal demo_vals else Solved infeasible (\<lambda>x. None))"


definition demo_swapped :: "fire list" where
  "demo_swapped = [demo_fire ''X'' 0 1 ''10:05'' 1, demo_fire ''Y'' 0 2 ''10:00'' 1]"

text \<open>The committed row of the concrete runs, with the fire index left open.\<close>

definition demo_assignment :: "nat \<Rightarrow> real \<Rightarrow> real \<Rightarrow> real \<Rightarrow> real \<Rightarrow> real \<Rightarrow> assignment" where
  "demo_assignment i x1 x2 x3 t c =
     \<lparr>fire_index = i, hel_index = 1, heli_model = ''KA-32'', heli_base = ''Alpha'',
      dist1 = x1, dist2 = x2, dist3 = x3, travel_time = t, fuel_cost = c\<rparr>"

text \<open>The demo solution assigns helicopter 0 to the fire at a position of the group.\<close>

definition demo_solve_assigns_position :: "nat \<Rightarrow> bool" where
  "demo_solve_assigns_position f =
     (case demo_vals (Assign 0 f) of None \<Rightarrow> False | Some x \<Rightarrow> x > 1 / 2)"






chapter \<open>Verification\<close>

section \<open>Scenario grouping\<close>



lemma temp_list_ok:
  "\<forall>f \<in> set fs. strptime (dt_str f) \<noteq> None \<Longrightarrow>
   temp_list strptime i fs =
     Inr (zip [i ..< i + length fs] (map (\<lambda>f. the (strptime (dt_str f))) fs))"
proof (induction fs arbitrary: i)
  case Nil
  then show ?case by simp
next
  case (Cons f fs)
  then have "temp_list strptime (Suc i) fs =
      Inr (zip [Suc i ..< Suc i + length fs] (map (\<lambda>f. the (strptime (dt_str f))) fs))"
    by simp
  moreover obtain d where "strptime (dt_str f) = Some d"
    using Cons.prems by auto
  moreover have "[i ..< i + length (f # fs)] = i # [Suc i ..< Suc i + length fs]"
    by (simp add: upt_rec)
  ultimately show ?case
    by simp
qed

lemma group_loop_grouped:
  assumes "\<forall>x \<in> set cur \<union> set xs. snd x = ts (fst x)"
    and "grouped w ts (final_group (sets, cur))"
    and "cur = [] \<longrightarrow> sets = []"
  shows "grouped w ts (final_group (group_loop w xs sets cur))"
  using assms
proof (induction xs arbitrary: sets cur)
  case Nil
  then show ?case by simp
next
  case (Cons x xs)
  obtain idx dt where x: "x = (idx, dt)" by (cases x)
  have dt: "dt = ts idx" using Cons.prems(1) x by auto
  show ?case
  proof (cases "cur = []")
    case True
    then have "sets = []" using Cons.prems(3) by simp
    with True have "grouped w ts (final_group (sets, cur @ [(idx, dt)]))"
      by (simp add: grouped_def final_group_def)
    then have "grouped w ts (final_group (group_loop w xs sets (cur @ [(idx, dt)])))"
      using Cons.prems(1) x by (intro Cons.IH) auto
    then show ?thesis using True x by simp
  next
    case False
    have lastcur: "snd (last cur) = ts (last (map fst cur))"
      using False Cons.prems(1) by (simp add: last_map)
    show ?thesis
    proof (cases "real_of_int (dt - snd (last cur)) \<le> w")
      case True
      then have ce: "close_enough w ts (last (map fst cur)) idx"
        using lastcur dt by (simp add: close_enough_def)
      have "grouped w ts (final_group (sets, cur @ [(idx, dt)]))"
        using Cons.prems(2) False ce
        by (auto simp: grouped_def final_group_def successively_append_iff)
      then have "grouped w ts (final_group (group_loop w xs sets (cur @ [(idx, dt)])))"
        using Cons.prems(1) x by (intro Cons.IH) auto
      then show ?thesis using True False x by simp
    next
      case far: False
      then have ce: "\<not> close_enough w ts (last (map fst cur)) idx"
        using lastcur dt by (simp add: close_enough_def)
      have "grouped w ts (final_group (sets @ [map fst cur], [(idx, dt)]))"
        using Cons.prems(2) False ce
        by (auto simp: grouped_def final_group_def successively_append_iff)
      then have "grouped w ts (final_group (group_loop w xs (sets @ [map fst cur]) [(idx, dt)]))"
        using Cons.prems(1) x by (intro Cons.IH) auto
      then show ?thesis using far False x by simp
    qed
  qed
qed

lemma group_loop_concat:
  "concat (final_group (group_loop w xs sets cur)) = concat (final_group (sets, cur)) @ map fst xs"
proof (induction xs arbitrary: sets cur)
  case Nil
  then show ?case by simp
next
  case (Cons x xs)
  obtain idx dt where x: "x = (idx, dt)" by (cases x)
  show ?case
    unfolding x by (simp add: Cons.IH Let_def) (simp add: final_group_def)
qed

lemma successively_nth:
  "successively P xs \<longleftrightarrow> (\<forall>k. Suc k < length xs \<longrightarrow> P (xs ! k) (xs ! Suc k))"
proof (induction P xs rule: successively.induct)
  case (3 P x y xs)
  show ?case
  proof
    assume a: "successively P (x # y # xs)"
    show "\<forall>k. Suc k < length (x # y # xs) \<longrightarrow> P ((x # y # xs) ! k) ((x # y # xs) ! Suc k)"
    proof (intro allI impI)
      fix k assume k: "Suc k < length (x # y # xs)"
      show "P ((x # y # xs) ! k) ((x # y # xs) ! Suc k)"
      proof (cases k)
        case 0
        then show ?thesis using a by simp
      next
        case (Suc j)
        then show ?thesis using a k 3 by simp
      qed
    qed
  next
    assume a: "\<forall>k. Suc k < length (x # y # xs) \<longrightarrow> P ((x # y # xs) ! k) ((x # y # xs) ! Suc k)"
    have "P x y" using a [rule_format, of 0] by simp
    moreover have "\<forall>k. Suc k < length (y # xs) \<longrightarrow> P ((y # xs) ! k) ((y # xs) ! Suc k)"
    proof (intro allI impI)
      fix k assume "Suc k < length (y # xs)"
      then show "P ((y # xs) ! k) ((y # xs) ! Suc k)"
        using a [rule_format, of "Suc k"] by simp
    qed
    ultimately show "successively P (x # y # xs)" using 3 by simp
  qed
qed simp_all

lemma sorted_map_concat_member:
  "sorted (map f (concat gs)) \<Longrightarrow> g \<in> set gs \<Longrightarrow> sorted (map f g)"
  by (induction gs) (auto simp: sorted_append)


text \<open>
  C4. When every fire's date and time parse, the grouper returns groups that partition
  the batch: every fire index occurs exactly once in the concatenation of the groups and
  no group is empty. Within a group the timestamps are non-decreasing and consecutive
  fires are at most the window apart; from the last fire of a group to the first fire of
  the next one the gap exceeds the window.
\<close>

theorem grouping_partitions_batch:
  assumes "\<forall>f \<in> set fire_points. strptime (dt_str f) \<noteq> None"
  shows "\<exists>groups. group_by_time_proximity strptime time_window fire_points = Inr groups
     \<and> mset (concat groups) = mset [0 ..< length fire_points]
     \<and> [] \<notin> set groups
     \<and> (\<forall>g \<in> set groups. sorted (map (stamp strptime fire_points) g)
          \<and> (\<forall>k. Suc k < length g \<longrightarrow>
                real_of_int (stamp strptime fire_points (g ! Suc k)
                             - stamp strptime fire_points (g ! k)) \<le> time_window))
     \<and> (\<forall>j. Suc j < length groups \<longrightarrow>
            time_window < real_of_int (stamp strptime fire_points (hd (groups ! Suc j))
                                       - stamp strptime fire_points (last (groups ! j))))"
proof (cases "fire_points = []")
  case True
  then show ?thesis by (simp add: group_by_time_proximity_def)
next
  case False
  define ts where "ts = stamp strptime fire_points"
  define tmp where "tmp = zip [0 ..< length fire_points]
      (map (\<lambda>f. the (strptime (dt_str f))) fire_points)"
  define srt where "srt = sort_key snd tmp"
  define groups where "groups = final_group (group_loop time_window srt [] [])"
  have tl: "temp_list strptime 0 fire_points = Inr tmp"
    using temp_list_ok [OF assms, of 0] by (simp add: tmp_def)
  have res: "group_by_time_proximity strptime time_window fire_points = Inr groups"
    using False tl by (simp add: group_by_time_proximity_def groups_def srt_def)
  have tmp_ts: "\<forall>x \<in> set tmp. snd x = ts (fst x)"
    unfolding tmp_def ts_def stamp_def
    by (auto simp: set_zip)
  have set_srt: "set srt = set tmp" by (simp add: srt_def)
  have srt_ts: "\<forall>x \<in> set srt. snd x = ts (fst x)"
    using tmp_ts set_srt by simp
  have cc: "concat groups = map fst srt"
    unfolding groups_def by (simp add: group_loop_concat) (simp add: final_group_def)
  have "mset (map fst srt) = mset (map fst tmp)"
    by (simp add: srt_def)
  also have "map fst tmp = [0 ..< length fire_points]"
    by (simp add: tmp_def)
  finally have part: "mset (concat groups) = mset [0 ..< length fire_points]"
    using cc by simp
  have gr: "grouped time_window ts groups"
    unfolding groups_def
    by (rule group_loop_grouped) (use srt_ts in \<open>auto simp: grouped_def final_group_def\<close>)
  have "map ts (concat groups) = map snd srt"
    using srt_ts cc by simp
  then have sorted_all: "sorted (map ts (concat groups))"
    by (simp add: srt_def)
  have in_group: "\<forall>g \<in> set groups. sorted (map ts g)
          \<and> (\<forall>k. Suc k < length g \<longrightarrow> real_of_int (ts (g ! Suc k) - ts (g ! k)) \<le> time_window)"
  proof
    fix g assume g: "g \<in> set groups"
    have "sorted (map ts g)" using sorted_all g by (rule sorted_map_concat_member)
    moreover have "successively (close_enough time_window ts) g"
      using gr g by (simp add: grouped_def)
    then have "\<forall>k. Suc k < length g \<longrightarrow> real_of_int (ts (g ! Suc k) - ts (g ! k)) \<le> time_window"
      by (simp add: successively_nth close_enough_def)
    ultimately show "sorted (map ts g)
          \<and> (\<forall>k. Suc k < length g \<longrightarrow> real_of_int (ts (g ! Suc k) - ts (g ! k)) \<le> time_window)"
      by simp
  qed
  have "successively (\<lambda>g h. \<not> close_enough time_window ts (last g) (hd h)) groups"
    using gr by (simp add: grouped_def)
  then have between: "\<forall>j. Suc j < length groups \<longrightarrow>
      time_window < real_of_int (ts (hd (groups ! Suc j)) - ts (last (groups ! j)))"
    by (simp add: successively_nth close_enough_def not_le)
  have "[] \<notin> set groups" using gr by (simp add: grouped_def)
  then show ?thesis
    using res part in_group between unfolding ts_def by blast
qed

text \<open>Three fires given out of time order, with a window of ten minutes.\<close>

theorem grouping_partitions_batch_witness:
  "group_by_time_proximity demo_strptime 10 demo_fires = Inr [[1, 2], [0]]
   \<and> (\<exists>groups. group_by_time_proximity demo_strptime 10 demo_fires = Inr groups
     \<and> mset (concat groups) = mset [0 ..< length demo_fires]
     \<and> [] \<notin> set groups
     \<and> (\<forall>g \<in> set groups. sorted (map (stamp demo_strptime demo_fires) g)
          \<and> (\<forall>k. Suc k < length g \<longrightarrow>
                real_of_int (stamp demo_strptime demo_fires (g ! Suc k)
                             - stamp demo_strptime demo_fires (g ! k)) \<le> 10))
     \<and> (\<forall>j. Suc j < length groups \<longrightarrow>
            10 < real_of_int (stamp demo_strptime demo_fires (hd (groups ! Suc j))
                              - stamp demo_strptime demo_fires (last (groups ! j)))))"
proof -
  have parses: "\<forall>f \<in> set demo_fires. demo_strptime (dt_str f) \<noteq> None"
    by (simp add: demo_fires_def demo_fire_def demo_strptime_def dt_str_def)
  have run: "group_by_time_proximity demo_strptime 10 demo_fires = Inr [[1, 2], [0]]"
    by (simp add: group_by_time_proximity_def demo_fires_def demo_fire_def demo_strptime_def
        dt_str_def final_group_def)
  show ?thesis
    using run grouping_partitions_batch [OF parses, of 10] by blast
qed

section \<open>Raising computations\<close>

lemma bind_err_Inr_iff:
  "bind_err m k = Inr y \<longleftrightarrow> (\<exists>x. m = Inr x \<and> k x = Inr y)"
  by (cases m) (simp_all add: bind_err_def)

lemma bind_err_Inr [simp]: "bind_err (Inr x) k = k x"
  by (simp add: bind_err_def)

lemma bind_err_Inl [simp]: "bind_err (Inl e) k = Inl e"
  by (simp add: bind_err_def)

lemma map_err_Inr_iff:
  "map_err g xs = Inr ys \<longleftrightarrow>
     length ys = length xs \<and> (\<forall>i < length xs. g (xs ! i) = Inr (ys ! i))"
proof (induction xs arbitrary: ys)
  case Nil
  then show ?case by auto
next
  case (Cons x xs)
  show ?case
  proof (cases ys)
    case Nil
    then show ?thesis by (auto simp: bind_err_Inr_iff)
  next
    case (Cons y ys')
    then show ?thesis
      by (auto simp: bind_err_Inr_iff Cons.IH nth_Cons split: nat.splits)
  qed
qed

lemma map_err_total:
  "(\<forall>x \<in> set xs. \<exists>y. g x = Inr y) \<Longrightarrow> \<exists>ys. map_err g xs = Inr ys"
proof (induction xs)
  case Nil
  then show ?case by simp
next
  case (Cons x xs)
  then obtain y ys where "g x = Inr y" "map_err g xs = Inr ys" by auto
  then show ?case by simp
qed

lemma table_err_Inr_iff:
  "table_err cell nh nf = Inr M \<longleftrightarrow>
     length M = nh \<and> (\<forall>h < nh. length (M ! h) = nf \<and> (\<forall>f < nf. cell h f = Inr (M ! h ! f)))"
  by (simp add: table_err_def map_err_Inr_iff)

lemma table_err_total:
  assumes "\<And>h f. h < nh \<Longrightarrow> f < nf \<Longrightarrow> \<exists>y. cell h f = Inr y"
  shows "\<exists>M. table_err cell nh nf = Inr M"
  unfolding table_err_def
  by (intro map_err_total ballI) (use assms in auto)

section \<open>Time and cost matrices\<close>

lemma leg_time_Inr_iff:
  "leg_time d speed h f = Inr t \<longleftrightarrow>
     h < length d \<and> f < length (d ! h) \<and> h < length speed \<and> speed ! h \<noteq> 0
     \<and> t = d ! h ! f / speed ! h"
  by (auto simp: leg_time_def bind_err_Inr_iff nth_err_def py_div_def)

lemma calculate_time_matrices_Inr_iff:
  "calculate_time_matrices self d1 d2 d3 fire_indices = Inr (T, C, A) \<longleftrightarrow>
     table_err (time_cell self d1 d2 d3) (length (heli_locs self)) (length fire_indices) = Inr T
     \<and> table_err (cost_cell self T) (length (heli_locs self)) (length fire_indices) = Inr C
     \<and> table_err (arrival_cell self d1 d2) (length (heli_locs self)) (length fire_indices) = Inr A"
  unfolding calculate_time_matrices_def Let_def bind_err_Inr_iff by auto

lemma time_cell_Inr:
  "time_cell self d1 d2 d3 h f = Inr t \<Longrightarrow>
     t = d1 ! h ! f / speed_w1 self ! h + d2 ! h ! f / speed_w2 self ! h
         + d3 ! h ! f / speed_w1 self ! h"
  unfolding time_cell_def bind_err_Inr_iff leg_time_Inr_iff by auto

lemma arrival_cell_Inr:
  "arrival_cell self d1 d2 h f = Inr t \<Longrightarrow>
     t = d1 ! h ! f / speed_w1 self ! h + d2 ! h ! f / speed_w2 self ! h"
  unfolding arrival_cell_def bind_err_Inr_iff leg_time_Inr_iff by auto

lemma cost_cell_Inr:
  "cost_cell self T h f = Inr c \<Longrightarrow> c = fuel_rate self * efficiency self ! h * T ! h ! f"
  unfolding cost_cell_def bind_err_Inr_iff nth_err_def by (auto split: if_splits)

lemma leg_time_total:
  "h < length d \<Longrightarrow> f < length (d ! h) \<Longrightarrow> h < length speed \<Longrightarrow> speed ! h \<noteq> 0 \<Longrightarrow>
   leg_time d speed h f = Inr (d ! h ! f / speed ! h)"
  by (simp add: leg_time_Inr_iff)

lemma routable_nth:
  assumes "routable self d1 d2 d3 nf" "h < length (heli_locs self)" "f < nf"
  shows "h < length (speed_w1 self)" "h < length (speed_w2 self)" "h < length (efficiency self)"
    "speed_w1 self ! h \<noteq> 0" "speed_w2 self ! h \<noteq> 0"
    "h < length d1" "h < length d2" "h < length d3"
    "f < length (d1 ! h)" "f < length (d2 ! h)" "f < length (d3 ! h)"
proof -
  have "h \<in> set [0 ..< length (heli_locs self)]" using assms(2) by simp
  with assms(1) have *: "h < length (speed_w1 self) \<and> h < length (speed_w2 self) \<and> h < length (efficiency self)
        \<and> (0 < nf \<longrightarrow> speed_w1 self ! h \<noteq> 0 \<and> speed_w2 self ! h \<noteq> 0)
        \<and> h < length d1 \<and> h < length d2 \<and> h < length d3
        \<and> nf \<le> length (d1 ! h) \<and> nf \<le> length (d2 ! h) \<and> nf \<le> length (d3 ! h)"
    unfolding routable_def list_all_iff by blast
  show "h < length (speed_w1 self)" "h < length (speed_w2 self)" "h < length (efficiency self)"
    "h < length d1" "h < length d2" "h < length d3"
    using * by simp_all
  show "speed_w1 self ! h \<noteq> 0" "speed_w2 self ! h \<noteq> 0"
    using * assms(3) by simp_all
  show "f < length (d1 ! h)" "f < length (d2 ! h)" "f < length (d3 ! h)"
    using * assms(3) by simp_all
qed

lemma calculate_time_matrices_total:
  assumes r: "routable self d1 d2 d3 (length fire_indices)"
  shows "\<exists>T' C' A'. calculate_time_matrices self d1 d2 d3 fire_indices = Inr (T', C', A')"
proof -
  define nh where "nh = length (heli_locs self)"
  define nf where "nf = length fire_indices"
  note rn = routable_nth [OF r, folded nh_def nf_def]
  have "\<exists>M. table_err (time_cell self d1 d2 d3) nh nf = Inr M"
  proof (rule table_err_total)
    fix h f assume hf: "h < nh" "f < nf"
    show "\<exists>y. time_cell self d1 d2 d3 h f = Inr y"
      unfolding time_cell_def
      by (simp add: leg_time_total rn [OF hf])
  qed
  then obtain T' where T': "table_err (time_cell self d1 d2 d3) nh nf = Inr T'" ..
  have "\<exists>M. table_err (cost_cell self T') nh nf = Inr M"
  proof (rule table_err_total)
    fix h f assume hf: "h < nh" "f < nf"
    from T' hf have "length T' = nh" "length (T' ! h) = nf"
      by (simp_all add: table_err_Inr_iff)
    with rn(3) [OF hf] hf show "\<exists>y. cost_cell self T' h f = Inr y"
      by (simp add: cost_cell_def nth_err_def)
  qed
  then obtain C' where C': "table_err (cost_cell self T') nh nf = Inr C'" ..
  have "\<exists>M. table_err (arrival_cell self d1 d2) nh nf = Inr M"
  proof (rule table_err_total)
    fix h f assume hf: "h < nh" "f < nf"
    show "\<exists>y. arrival_cell self d1 d2 h f = Inr y"
      unfolding arrival_cell_def
      by (simp add: leg_time_total rn [OF hf])
  qed
  then obtain A' where A': "table_err (arrival_cell self d1 d2) nh nf = Inr A'" ..
  show ?thesis
    using T' C' A' by (simp add: calculate_time_matrices_Inr_iff nh_def nf_def)
qed

lemma demo_optimizer_simps:
  "heli_locs demo_optimizer = [(0, 0)]"
  "speed_w1 demo_optimizer = [2]"
  "speed_w2 demo_optimizer = [1]"
  "efficiency demo_optimizer = [3]"
  "time_limit demo_optimizer = [100]"
  "supp_capa demo_optimizer = [2]"
  "heli_df demo_optimizer = [demo_row]"
  "helipads demo_optimizer = demo_pads"
  "fuel_rate demo_optimizer = 1 / 2"
  "golden_time_minutes demo_optimizer = 30"
  "big_penalty demo_optimizer = 1000"
  by (simp_all add: demo_optimizer_def new_optimizer_def init_parameters_def demo_row_def
      demo_pads_def)

text \<open>
  C9. Whenever \<open>calculate_time_matrices\<close> returns, for every helicopter \<open>h\<close> and fire \<open>f\<close>
  the travel time is leg1 / speed-to-water + leg2 / speed-loaded + leg3 / speed-to-water,
  the arrival time is leg1 / speed-to-water + leg2 / speed-loaded, and the fuel cost is
  fuel rate * efficiency of \<open>h\<close> * travel time. It returns on every routable input (indices
  in range, speeds not zero).
\<close>

theorem time_matrices_formulas:
  "(calculate_time_matrices self d1 d2 d3 fire_indices = Inr (T, C, A) \<longrightarrow>
      (\<forall>h < length (heli_locs self). \<forall>f < length fire_indices.
         T ! h ! f = d1 ! h ! f / speed_w1 self ! h + d2 ! h ! f / speed_w2 self ! h
                     + d3 ! h ! f / speed_w1 self ! h
         \<and> A ! h ! f = d1 ! h ! f / speed_w1 self ! h + d2 ! h ! f / speed_w2 self ! h
         \<and> C ! h ! f = fuel_rate self * efficiency self ! h * T ! h ! f))
   \<and> (routable self d1 d2 d3 (length fire_indices) \<longrightarrow>
        (\<exists>T' C' A'. calculate_time_matrices self d1 d2 d3 fire_indices = Inr (T', C', A')))"
proof (rule conjI)
  show "calculate_time_matrices self d1 d2 d3 fire_indices = Inr (T, C, A) \<longrightarrow>
      (\<forall>h < length (heli_locs self). \<forall>f < length fire_indices.
         T ! h ! f = d1 ! h ! f / speed_w1 self ! h + d2 ! h ! f / speed_w2 self ! h
                     + d3 ! h ! f / speed_w1 self ! h
         \<and> A ! h ! f = d1 ! h ! f / speed_w1 self ! h + d2 ! h ! f / speed_w2 self ! h
         \<and> C ! h ! f = fuel_rate self * efficiency self ! h * T ! h ! f)"
  proof (intro impI allI)
    fix h f
    assume run: "calculate_time_matrices self d1 d2 d3 fire_indices = Inr (T, C, A)"
      and h: "h < length (heli_locs self)" and f: "f < length fire_indices"
    from run h f have "time_cell self d1 d2 d3 h f = Inr (T ! h ! f)"
      and "cost_cell self T h f = Inr (C ! h ! f)"
      and "arrival_cell self d1 d2 h f = Inr (A ! h ! f)"
      by (simp_all add: calculate_time_matrices_Inr_iff table_err_Inr_iff)
    then show "T ! h ! f = d1 ! h ! f / speed_w1 self ! h + d2 ! h ! f / speed_w2 self ! h
                     + d3 ! h ! f / speed_w1 self ! h
         \<and> A ! h ! f = d1 ! h ! f / speed_w1 self ! h + d2 ! h ! f / speed_w2 self ! h
         \<and> C ! h ! f = fuel_rate self * efficiency self ! h * T ! h ! f"
      by (intro conjI time_cell_Inr arrival_cell_Inr cost_cell_Inr)
  qed
  show "routable self d1 d2 d3 (length fire_indices) \<longrightarrow>
        (\<exists>T' C' A'. calculate_time_matrices self d1 d2 d3 fire_indices = Inr (T', C', A'))"
    by (intro impI calculate_time_matrices_total)
qed

text \<open>One helicopter with speeds 2 and 1, legs 4, 3 and 2: travel time 6, arrival 5, cost 9.\<close>

theorem time_matrices_formulas_witness:
  "\<exists>T C A. calculate_time_matrices demo_optimizer [[4]] [[3]] [[2]] [0] = Inr (T, C, A)
     \<and> T ! 0 ! 0 = 6 \<and> A ! 0 ! 0 = 5 \<and> C ! 0 ! 0 = 9"
proof -
  have "routable demo_optimizer [[4]] [[3]] [[2]] (length [0::nat])"
    by (simp add: routable_def demo_optimizer_simps)
  then obtain T C A where
    run: "calculate_time_matrices demo_optimizer [[4]] [[3]] [[2]] [0] = Inr (T, C, A)"
    using time_matrices_formulas [of demo_optimizer "[[4]]" "[[3]]" "[[2]]" "[0]"] by blast
  have "T ! 0 ! 0 = 6 \<and> A ! 0 ! 0 = 5 \<and> C ! 0 ! 0 = 9"
    using run time_matrices_formulas [of demo_optimizer "[[4]]" "[[3]]" "[[2]]" "[0]" T C A]
    by (simp add: demo_optimizer_simps)
  with run show ?thesis by blast
qed

section \<open>The hard cut-offs of the model\<close>

lemma Constraint_member:
  "(i, c) \<in> set (Constraint idxs rule) \<longleftrightarrow> i \<in> set idxs \<and> rule i = Some c"
  by (auto simp: Constraint_def split: option.splits)

lemma index_pairs_member:
  "(h, f) \<in> set (concat (map (\<lambda>h. map (\<lambda>f. (h, f)) fs) hs)) \<longleftrightarrow> h \<in> set hs \<and> f \<in> set fs"
  by auto

lemma map_err_nth_err:
  "map_err (\<lambda>i. nth_err xs i) [0 ..< n] = Inr ys \<Longrightarrow> i < n \<Longrightarrow> ys ! i = xs ! i"
  by (auto simp: map_err_Inr_iff nth_err_def split: if_splits)

lemma formulate_fields:
  assumes "formulate self fire_indices difficulties_in d1 d2 d3 = Inr (m, cost_hf_list, time_hf_list)"
  shows "\<exists>A limit. calculate_time_matrices self d1 d2 d3 fire_indices = Inr (time_hf_list, cost_hf_list, A)
     \<and> map_err (\<lambda>h. nth_err (time_limit self) h) [0 ..< length (heli_locs self)] = Inr limit
     \<and> time_hf m = time_hf_list \<and> arrival_time_hf m = A \<and> TIME_LIMIT m = limit
     \<and> golden_time_constraint m =
          Constraint (concat (map (\<lambda>h. map (\<lambda>f. (h, f)) [0 ..< length fire_indices])
                               [0 ..< length (heli_locs self)]))
            (\<lambda>(h, f). if A ! h ! f > golden_time_minutes self then Some (assign_is_zero h f) else None)
     \<and> time_limit_constraint m =
          Constraint (concat (map (\<lambda>h. map (\<lambda>f. (h, f)) [0 ..< length fire_indices])
                               [0 ..< length (heli_locs self)]))
            (\<lambda>(h, f). if time_hf_list ! h ! f > limit ! h then Some (assign_is_zero h f) else None)"
proof -
  obtain T C A where calc: "calculate_time_matrices self d1 d2 d3 fire_indices = Inr (T, C, A)"
    using assms by (cases "calculate_time_matrices self d1 d2 d3 fire_indices")
      (auto simp: formulate_def Let_def)
  obtain diffs where diffs: "map_err (\<lambda>f. nth_err difficulties_in f) [0 ..< length fire_indices] = Inr diffs"
    using assms calc
    by (cases "map_err (\<lambda>f. nth_err difficulties_in f) [0 ..< length fire_indices]")
       (auto simp: formulate_def Let_def)
  obtain supp where supp: "map_err (\<lambda>h. nth_err (supp_capa self) h) [0 ..< length (heli_locs self)] = Inr supp"
    using assms calc diffs
    by (cases "map_err (\<lambda>h. nth_err (supp_capa self) h) [0 ..< length (heli_locs self)]")
       (auto simp: formulate_def Let_def)
  obtain limit where limit: "map_err (\<lambda>h. nth_err (time_limit self) h) [0 ..< length (heli_locs self)] = Inr limit"
    using assms calc diffs supp
    by (cases "map_err (\<lambda>h. nth_err (time_limit self) h) [0 ..< length (heli_locs self)]")
       (auto simp: formulate_def Let_def)
  have "time_hf_list = T \<and> cost_hf_list = C \<and> time_hf m = T \<and> arrival_time_hf m = A \<and> TIME_LIMIT m = limit
     \<and> golden_time_constraint m =
          Constraint (concat (map (\<lambda>h. map (\<lambda>f. (h, f)) [0 ..< length fire_indices])
                               [0 ..< length (heli_locs self)]))
            (\<lambda>(h, f). if A ! h ! f > golden_time_minutes self then Some (assign_is_zero h f) else None)
     \<and> time_limit_constraint m =
          Constraint (concat (map (\<lambda>h. map (\<lambda>f. (h, f)) [0 ..< length fire_indices])
                               [0 ..< length (heli_locs self)]))
            (\<lambda>(h, f). if T ! h ! f > limit ! h then Some (assign_is_zero h f) else None)"
    using assms calc diffs supp limit
    by (auto simp: formulate_def Let_def golden_time_rule_def time_limit_rule_def
        assignfire_upper_bound1_def assignfire_upper_bound2_def assignfire_lower_bound_def)
  then show ?thesis using calc limit by auto
qed

lemma satisfies_member:
  "satisfies m v \<Longrightarrow> c \<in> set (all_constraints m) \<Longrightarrow> holds v c"
  by (simp add: satisfies_def list_all_iff)

lemma holds_assign_is_zero: "holds v (assign_is_zero h f) \<longleftrightarrow> v (Assign h f) = 0"
  by (simp add: assign_is_zero_def eval_linexp_def)

text \<open>
  C5. In the model that \<open>build_model\<close> formulates, for every helicopter \<open>h\<close> and fire \<open>f\<close>:
  when the arrival time exceeds the golden time, the golden-time component holds the
  constraint \<open>Assign[h,f] = 0\<close> at \<open>(h, f)\<close>; when the travel time exceeds the time limit
  of \<open>h\<close>, the time-limit component holds it. Hence every valuation that satisfies the
  model and sets \<open>Assign[h,f]\<close> to 1 has the arrival time within the golden time and the
  travel time within the limit. The two times are those of \<open>calculate_time_matrices\<close>.
\<close>

theorem hard_cutoffs:
  assumes built: "formulate self fire_indices difficulties_in d1 d2 d3 = Inr (m, cost_hf_list, time_hf_list)"
    and h: "h < length (heli_locs self)" and f: "f < length fire_indices"
  shows "(golden_time_minutes self < arrival_time_hf m ! h ! f \<longrightarrow>
            ((h, f), assign_is_zero h f) \<in> set (golden_time_constraint m))
     \<and> (time_limit self ! h < time_hf m ! h ! f \<longrightarrow>
            ((h, f), assign_is_zero h f) \<in> set (time_limit_constraint m))
     \<and> (\<forall>v. holds v (assign_is_zero h f) \<longleftrightarrow> v (Assign h f) = 0)
     \<and> (\<forall>v. satisfies m v \<and> v (Assign h f) = 1 \<longrightarrow>
            arrival_time_hf m ! h ! f \<le> golden_time_minutes self
            \<and> time_hf m ! h ! f \<le> time_limit self ! h)
     \<and> (\<exists>C. calculate_time_matrices self d1 d2 d3 fire_indices
              = Inr (time_hf m, C, arrival_time_hf m))"
proof -
  from formulate_fields [OF built] obtain A limit where
    calc: "calculate_time_matrices self d1 d2 d3 fire_indices = Inr (time_hf_list, cost_hf_list, A)"
    and limit: "map_err (\<lambda>h. nth_err (time_limit self) h) [0 ..< length (heli_locs self)] = Inr limit"
    and fields: "time_hf m = time_hf_list" "arrival_time_hf m = A" "TIME_LIMIT m = limit"
    and golden: "golden_time_constraint m =
          Constraint (concat (map (\<lambda>h. map (\<lambda>f. (h, f)) [0 ..< length fire_indices])
                               [0 ..< length (heli_locs self)]))
            (\<lambda>(h, f). if A ! h ! f > golden_time_minutes self then Some (assign_is_zero h f) else None)"
    and endurance: "time_limit_constraint m =
          Constraint (concat (map (\<lambda>h. map (\<lambda>f. (h, f)) [0 ..< length fire_indices])
                               [0 ..< length (heli_locs self)]))
            (\<lambda>(h, f). if time_hf_list ! h ! f > limit ! h then Some (assign_is_zero h f) else None)"
    by blast
  have lim: "limit ! h = time_limit self ! h"
    using map_err_nth_err [OF limit h] .
  have pair: "(h, f) \<in> set (concat (map (\<lambda>h. map (\<lambda>f. (h, f)) [0 ..< length fire_indices])
                               [0 ..< length (heli_locs self)]))"
    using h f by force
  have g: "golden_time_minutes self < arrival_time_hf m ! h ! f \<longrightarrow>
            ((h, f), assign_is_zero h f) \<in> set (golden_time_constraint m)"
    using pair by (simp add: golden fields Constraint_member del: set_concat)
  have e: "time_limit self ! h < time_hf m ! h ! f \<longrightarrow>
            ((h, f), assign_is_zero h f) \<in> set (time_limit_constraint m)"
    using pair by (simp add: endurance fields lim Constraint_member del: set_concat)
  have s: "arrival_time_hf m ! h ! f \<le> golden_time_minutes self
            \<and> time_hf m ! h ! f \<le> time_limit self ! h"
    if sat: "satisfies m v" and one: "v (Assign h f) = 1" for v
  proof -
    have zero: "c \<in> set (map snd (golden_time_constraint m)) \<union> set (map snd (time_limit_constraint m))
        \<Longrightarrow> holds v c" for c
      using sat by (intro satisfies_member [of m v]) (auto simp: all_constraints_def)
    have "\<not> golden_time_minutes self < arrival_time_hf m ! h ! f"
    proof
      assume "golden_time_minutes self < arrival_time_hf m ! h ! f"
      with g have "assign_is_zero h f \<in> set (map snd (golden_time_constraint m))" by force
      then have "holds v (assign_is_zero h f)" using zero by blast
      then show False using one by (simp add: holds_assign_is_zero)
    qed
    moreover have "\<not> time_limit self ! h < time_hf m ! h ! f"
    proof
      assume "time_limit self ! h < time_hf m ! h ! f"
      with e have "assign_is_zero h f \<in> set (map snd (time_limit_constraint m))" by force
      then have "holds v (assign_is_zero h f)" using zero by blast
      then show False using one by (simp add: holds_assign_is_zero)
    qed
    ultimately show ?thesis by simp
  qed
  have c: "\<exists>C. calculate_time_matrices self d1 d2 d3 fire_indices
              = Inr (time_hf m, C, arrival_time_hf m)"
    using calc fields by auto
  show ?thesis
    using g e s c holds_assign_is_zero by blast
qed

lemma demo_formulate_far:
  "\<exists>m c t. formulate demo_optimizer [0] [1] [[80]] [[3]] [[200]] = Inr (m, c, t)
     \<and> arrival_time_hf m = [[43]] \<and> time_hf m = [[143]]"
  by (simp add: formulate_def calculate_time_matrices_def table_err_def time_cell_def
      cost_cell_def arrival_cell_def leg_time_def nth_err_def py_div_def demo_optimizer_simps
      Let_def)

lemma demo_formulate_near:
  "\<exists>m c t. formulate demo_optimizer [0] [1] [[4]] [[3]] [[2]] = Inr (m, c, t)
     \<and> arrival_time_hf m = [[5]] \<and> time_hf m = [[6]] \<and> satisfies m all_ones"
  by (simp add: formulate_def calculate_time_matrices_def table_err_def time_cell_def
      cost_cell_def arrival_cell_def leg_time_def nth_err_def py_div_def demo_optimizer_simps
      Let_def satisfies_def all_constraints_def Constraint_def golden_time_rule_def
      time_limit_rule_def suppression_rule_def one_assignment_rule_def
      assignfire_upper_bound1_def assignfire_upper_bound2_def assignfire_lower_bound_def
      eval_linexp_def all_ones_def)

text \<open>
  Legs 80, 3, 200 give arrival 43 > 30 and travel 143 > 100: both constraints are there.
  Legs 4, 3, 2 give a model that the all-ones valuation satisfies.
\<close>

theorem hard_cutoffs_witness:
  "(\<exists>m c t. formulate demo_optimizer [0] [1] [[80]] [[3]] [[200]] = Inr (m, c, t)
       \<and> golden_time_minutes demo_optimizer < arrival_time_hf m ! 0 ! 0
       \<and> time_limit demo_optimizer ! 0 < time_hf m ! 0 ! 0
       \<and> ((0, 0), assign_is_zero 0 0) \<in> set (golden_time_constraint m)
       \<and> ((0, 0), assign_is_zero 0 0) \<in> set (time_limit_constraint m))
   \<and> (\<exists>m c t. formulate demo_optimizer [0] [1] [[4]] [[3]] [[2]] = Inr (m, c, t)
       \<and> satisfies m all_ones \<and> all_ones (Assign 0 0) = 1
       \<and> arrival_time_hf m ! 0 ! 0 \<le> golden_time_minutes demo_optimizer
       \<and> time_hf m ! 0 ! 0 \<le> time_limit demo_optimizer ! 0)"
proof (rule conjI)
  obtain m c t where run: "formulate demo_optimizer [0] [1] [[80]] [[3]] [[200]] = Inr (m, c, t)"
    and vals: "arrival_time_hf m = [[43]]" "time_hf m = [[143]]"
    using demo_formulate_far by blast
  have "golden_time_minutes demo_optimizer < arrival_time_hf m ! 0 ! 0"
    and "time_limit demo_optimizer ! 0 < time_hf m ! 0 ! 0"
    by (simp_all add: vals demo_optimizer_simps)
  then show "\<exists>m c t. formulate demo_optimizer [0] [1] [[80]] [[3]] [[200]] = Inr (m, c, t)
       \<and> golden_time_minutes demo_optimizer < arrival_time_hf m ! 0 ! 0
       \<and> time_limit demo_optimizer ! 0 < time_hf m ! 0 ! 0
       \<and> ((0, 0), assign_is_zero 0 0) \<in> set (golden_time_constraint m)
       \<and> ((0, 0), assign_is_zero 0 0) \<in> set (time_limit_constraint m)"
    using run hard_cutoffs [OF run, of 0 0] by (simp add: demo_optimizer_simps)
next
  obtain m c t where run: "formulate demo_optimizer [0] [1] [[4]] [[3]] [[2]] = Inr (m, c, t)"
    and sat: "satisfies m all_ones"
    using demo_formulate_near by blast
  have one: "all_ones (Assign 0 0) = 1" by (simp add: all_ones_def)
  have "arrival_time_hf m ! 0 ! 0 \<le> golden_time_minutes demo_optimizer
       \<and> time_hf m ! 0 ! 0 \<le> time_limit demo_optimizer ! 0"
    using sat one hard_cutoffs [OF run, of 0 0] by (auto simp: demo_optimizer_simps)
  then show "\<exists>m c t. formulate demo_optimizer [0] [1] [[4]] [[3]] [[2]] = Inr (m, c, t)
       \<and> satisfies m all_ones \<and> all_ones (Assign 0 0) = 1
       \<and> arrival_time_hf m ! 0 ! 0 \<le> golden_time_minutes demo_optimizer
       \<and> time_hf m ! 0 ! 0 \<le> time_limit demo_optimizer ! 0"
    using run sat one by blast
qed

section \<open>Helicopter locations at initialisation\<close>

lemma heli_locs_loop_eq:
  "heli_locs_loop pads bases locs =
     (map InvalidBaseIndex (take 1 (dropWhile (valid_base pads) bases)),
      locs @ map (pad_point pads) (takeWhile (valid_base pads) bases))"
  by (induction bases arbitrary: locs) (simp_all add: valid_base_def pad_point_def)

text \<open>
  C3, as amended. With a non-empty fleet and a non-empty helipad list, initialisation never
  raises and stops at the first helicopter whose base index is outside the helipad list:
  the locations are those of exactly the helicopters before it, that helicopter and all
  later ones get none, and one warning naming the index is printed (none if every index
  is valid). The other parameter lists are filled from the whole table.
\<close>

theorem init_stops_at_first_invalid_base:
  assumes "new_optimizer df pads golden rate penalty = (printed, self)"
    and "df \<noteq> []" and "pads \<noteq> []"
  shows "heli_locs self = map (pad_point pads) (takeWhile (valid_base pads) (map col_base df))
     \<and> printed = map InvalidBaseIndex (take 1 (dropWhile (valid_base pads) (map col_base df)))
     \<and> heli_df self = df \<and> speed_w1 self = map col_speed_w1 df"
  using assms
  by (auto simp: new_optimizer_def init_parameters_def heli_locs_loop_eq Let_def)

text \<open>Of three helicopters with base indices 0, 7, 0 and one helipad, only the first is located.\<close>

theorem init_stops_at_first_invalid_base_witness:
  "\<exists>printed self. new_optimizer demo_fleet demo_pads 30 (1 / 2) 1000 = (printed, self)
     \<and> heli_locs self = [(0, 0)] \<and> printed = [InvalidBaseIndex 7]"
proof -
  obtain printed self where
    run: "new_optimizer demo_fleet demo_pads 30 (1 / 2) 1000 = (printed, self)"
    by (cases "new_optimizer demo_fleet demo_pads 30 (1 / 2) 1000")
  have "demo_fleet \<noteq> []" "demo_pads \<noteq> []"
    by (simp_all add: demo_fleet_def demo_pads_def)
  from init_stops_at_first_invalid_base [OF run this]
  have "heli_locs self = [(0, 0)] \<and> printed = [InvalidBaseIndex 7]"
    by (simp add: demo_fleet_def demo_pads_def demo_row_def valid_base_def pad_point_def)
  with run show ?thesis by blast
qed

text \<open>
  C3 as stated fails on the same fleet: the third helicopter has a valid base, so leaving
  out only the affected one would give two locations, and the program gives one.
\<close>

theorem skips_more_than_invalid_counterexample:
  "heli_locs (snd (new_optimizer demo_fleet demo_pads 30 (1 / 2) 1000)) = [(0, 0)]
   \<and> locs_skipping_invalid demo_pads (map col_base demo_fleet) = [(0, 0), (0, 0)]
   \<and> heli_locs (snd (new_optimizer demo_fleet demo_pads 30 (1 / 2) 1000))
       \<noteq> locs_skipping_invalid demo_pads (map col_base demo_fleet)"
  by (simp add: new_optimizer_def init_parameters_def demo_fleet_def demo_pads_def demo_row_def
      locs_skipping_invalid_def valid_base_def pad_point_def)

section \<open>Water-source routing\<close>

lemma arg_min_list_first:
  "xs \<noteq> [] \<Longrightarrow> \<exists>i < length xs. arg_min_list f xs = xs ! i
      \<and> (\<forall>j < length xs. f (xs ! i) \<le> f (xs ! j)) \<and> (\<forall>j < i. f (xs ! i) < f (xs ! j))"
proof (induction f xs rule: arg_min_list.induct)
  case (1 f x)
  then show ?case by simp
next
  case (2 f x y zs)
  then obtain i where i: "i < length (y # zs)" "arg_min_list f (y # zs) = (y # zs) ! i"
    "\<forall>j < length (y # zs). f ((y # zs) ! i) \<le> f ((y # zs) ! j)"
    "\<forall>j < i. f ((y # zs) ! i) < f ((y # zs) ! j)"
    by auto
  show ?case
  proof (cases "f x \<le> f ((y # zs) ! i)")
    case True
    have "\<forall>j < length (x # y # zs). f x \<le> f ((x # y # zs) ! j)"
    proof (intro allI impI)
      fix j assume "j < length (x # y # zs)"
      then show "f x \<le> f ((x # y # zs) ! j)"
        using True i(3) by (cases j) (auto intro: order_trans)
    qed
    then have "0 < length (x # y # zs) \<and> arg_min_list f (x # y # zs) = (x # y # zs) ! 0
      \<and> (\<forall>j < length (x # y # zs). f ((x # y # zs) ! 0) \<le> f ((x # y # zs) ! j))
      \<and> (\<forall>j < 0. f ((x # y # zs) ! 0) < f ((x # y # zs) ! j))"
      using True i(2) by (simp add: Let_def)
    then show ?thesis by blast
  next
    case False
    have a: "\<forall>j < length (x # y # zs). f ((y # zs) ! i) \<le> f ((x # y # zs) ! j)"
    proof (intro allI impI)
      fix j assume "j < length (x # y # zs)"
      then show "f ((y # zs) ! i) \<le> f ((x # y # zs) ! j)"
        using False i(3) by (cases j) auto
    qed
    have b: "\<forall>j < Suc i. f ((y # zs) ! i) < f ((x # y # zs) ! j)"
    proof (intro allI impI)
      fix j assume "j < Suc i"
      then show "f ((y # zs) ! i) < f ((x # y # zs) ! j)"
        using False i(4) by (cases j) auto
    qed
    have "Suc i < length (x # y # zs) \<and> arg_min_list f (x # y # zs) = (x # y # zs) ! Suc i
      \<and> (\<forall>j < length (x # y # zs). f ((x # y # zs) ! Suc i) \<le> f ((x # y # zs) ! j))
      \<and> (\<forall>j < Suc i. f ((x # y # zs) ! Suc i) < f ((x # y # zs) ! j))"
      using False i(1,2) a b by (simp add: Let_def)
    then show ?thesis by blast
  qed
qed simp

lemma arg_min_list_skip:
  "f x \<le> f y \<Longrightarrow> arg_min_list f (x # y # zs) = arg_min_list f (x # zs)"
  by (cases zs) (auto simp: Let_def)

lemma arg_min_list_le_head:
  "f (arg_min_list f (x # xs)) \<le> f x"
  by (cases xs) (auto simp: Let_def)

lemma best_loop_Some:
  "best_loop calculate_distance fire_loc heli_loc cs (Some (round_trip calculate_distance fire_loc heli_loc c0))
       (legs calculate_distance fire_loc heli_loc c0)
   = legs calculate_distance fire_loc heli_loc (arg_min_list (round_trip calculate_distance fire_loc heli_loc) (c0 # cs))"
proof (induction cs arbitrary: c0)
  case Nil
  then show ?case by simp
next
  case (Cons c cs)
  obtain w dw where c: "c = (w, dw)" by (cases c)
  show ?case
  proof (cases "round_trip calculate_distance fire_loc heli_loc c < round_trip calculate_distance fire_loc heli_loc c0")
    case True
    have "round_trip calculate_distance fire_loc heli_loc
            (arg_min_list (round_trip calculate_distance fire_loc heli_loc) (c # cs))
          \<le> round_trip calculate_distance fire_loc heli_loc c"
      by (rule arg_min_list_le_head)
    with True have "arg_min_list (round_trip calculate_distance fire_loc heli_loc) (c0 # c # cs)
        = arg_min_list (round_trip calculate_distance fire_loc heli_loc) (c # cs)"
      by (simp add: Let_def)
    moreover have "best_loop calculate_distance fire_loc heli_loc (c # cs)
        (Some (round_trip calculate_distance fire_loc heli_loc c0)) (legs calculate_distance fire_loc heli_loc c0)
      = best_loop calculate_distance fire_loc heli_loc cs
        (Some (round_trip calculate_distance fire_loc heli_loc c)) (legs calculate_distance fire_loc heli_loc c)"
      using True by (simp add: c round_trip_def legs_def Let_def)
    ultimately show ?thesis using Cons.IH [of c] by simp
  next
    case False
    then have "arg_min_list (round_trip calculate_distance fire_loc heli_loc) (c0 # c # cs)
        = arg_min_list (round_trip calculate_distance fire_loc heli_loc) (c0 # cs)"
      by (intro arg_min_list_skip) simp
    moreover have "best_loop calculate_distance fire_loc heli_loc (c # cs)
        (Some (round_trip calculate_distance fire_loc heli_loc c0)) (legs calculate_distance fire_loc heli_loc c0)
      = best_loop calculate_distance fire_loc heli_loc cs
        (Some (round_trip calculate_distance fire_loc heli_loc c0)) (legs calculate_distance fire_loc heli_loc c0)"
      using False by (simp add: c round_trip_def legs_def Let_def)
    ultimately show ?thesis using Cons.IH [of c0] by simp
  qed
qed

lemma best_loop_None:
  "cs \<noteq> [] \<Longrightarrow> best_loop calculate_distance fire_loc heli_loc cs None z
     = legs calculate_distance fire_loc heli_loc (arg_min_list (round_trip calculate_distance fire_loc heli_loc) cs)"
proof (cases cs)
  case Nil
  assume "cs \<noteq> []" with Nil show ?thesis by simp
next
  case (Cons c rest)
  obtain w dw where c: "c = (w, dw)" by (cases c)
  have "best_loop calculate_distance fire_loc heli_loc (c # rest) None z
      = best_loop calculate_distance fire_loc heli_loc rest
        (Some (round_trip calculate_distance fire_loc heli_loc c)) (legs calculate_distance fire_loc heli_loc c)"
    by (simp add: c round_trip_def legs_def Let_def)
  then show ?thesis using Cons best_loop_Some [of calculate_distance fire_loc heli_loc rest c] by simp
qed

lemma sort_key_first_min:
  "xs \<noteq> [] \<Longrightarrow>
   sort_key k xs = arg_min_list k xs # sort_key k (remove1 (arg_min_list k xs) xs)"
proof (induction k xs rule: arg_min_list.induct)
  case (1 f x)
  then show ?case by simp
next
  case (2 f x y zs)
  define m where "m = arg_min_list f (y # zs)"
  have ih: "sort_key f (y # zs) = m # sort_key f (remove1 m (y # zs))"
    using 2 by (simp add: m_def)
  show ?case
  proof (cases "f x \<le> f m")
    case True
    then have "arg_min_list f (x # y # zs) = x" by (simp add: m_def Let_def)
    moreover have "sort_key f (x # y # zs) = x # sort_key f (y # zs)"
      using True ih by simp
    ultimately show ?thesis by simp
  next
    case False
    then have am: "arg_min_list f (x # y # zs) = m" by (simp add: m_def Let_def)
    have "m \<noteq> x" using False by auto
    then have rm: "remove1 m (x # y # zs) = x # remove1 m (y # zs)" by simp
    have "sort_key f (x # y # zs) = insort_key f x (m # sort_key f (remove1 m (y # zs)))"
      using ih by simp
    also have "\<dots> = m # insort_key f x (sort_key f (remove1 m (y # zs)))"
      using False by simp
    also have "\<dots> = m # sort_key f (x # remove1 m (y # zs))" by simp
    finally show ?thesis using am rm by simp
  qed
qed simp

lemma take_sort_key_smallest_first:
  "take n (sort_key key xs) = smallest_first n key xs"
proof (induction n arbitrary: xs)
  case 0
  then show ?case by simp
next
  case (Suc n)
  show ?case
  proof (cases "xs = []")
    case True
    then show ?thesis by simp
  next
    case False
    from sort_key_first_min [OF False, of key]
    have "take (Suc n) (sort_key key xs)
        = arg_min_list key xs # take n (sort_key key (remove1 (arg_min_list key xs) xs))"
      by simp
    then show ?thesis using False Suc.IH by (simp add: Let_def)
  qed
qed

lemma nearest_3_smallest_first:
  "nearest_3 calculate_distance fire_loc water_pts = smallest_first 3 snd (dist_list calculate_distance fire_loc water_pts)"
  by (simp add: nearest_3_def take_sort_key_smallest_first)

lemma heli_loop_rows:
  assumes "heli_loop calculate_distance fire_loc near k rest (d1, d2, d3) = (e1, e2, e3)"
    and "k + length rest \<le> length d1" "length d2 = length d1" "length d3 = length d1"
  shows "length e1 = length d1 \<and> length e2 = length d1 \<and> length e3 = length d1
    \<and> (\<forall>i < length d1.
          (k \<le> i \<and> i < k + length rest \<longrightarrow>
             (e1 ! i, e2 ! i, e3 ! i) =
               (case best_loop calculate_distance fire_loc (rest ! (i - k)) near None (0, 0, 0) of
                  (c1, c2, c3) \<Rightarrow> (d1 ! i @ [c1], d2 ! i @ [c2], d3 ! i @ [c3])))
        \<and> (\<not> (k \<le> i \<and> i < k + length rest) \<longrightarrow>
             (e1 ! i, e2 ! i, e3 ! i) = (d1 ! i, d2 ! i, d3 ! i)))"
  using assms
proof (induction rest arbitrary: k d1 d2 d3)
  case Nil
  then show ?case by auto
next
  case (Cons heli_loc rest)
  obtain c1 c2 c3 where bc: "best_loop calculate_distance fire_loc heli_loc near None (0, 0, 0) = (c1, c2, c3)"
    by (cases "best_loop calculate_distance fire_loc heli_loc near None (0, 0, 0)")
  define d1' where "d1' = d1[k := d1 ! k @ [c1]]"
  define d2' where "d2' = d2[k := d2 ! k @ [c2]]"
  define d3' where "d3' = d3[k := d3 ! k @ [c3]]"
  have step: "heli_loop calculate_distance fire_loc near (Suc k) rest (d1', d2', d3') = (e1, e2, e3)"
    using Cons.prems(1) bc by (simp add: d1'_def d2'_def d3'_def)
  have lens: "Suc k + length rest \<le> length d1'" "length d2' = length d1'" "length d3' = length d1'"
    using Cons.prems(2-4) by (simp_all add: d1'_def d2'_def d3'_def)
  note ih = Cons.IH [OF step lens]
  have len: "length d1' = length d1" by (simp add: d1'_def)
  have k: "k < length d1" "k < length d2" "k < length d3" using Cons.prems(2-4) by simp_all
  show ?case
  proof (intro conjI allI impI)
    show "length e1 = length d1" "length e2 = length d1" "length e3 = length d1"
      using ih len by simp_all
  next
    fix i assume i: "i < length d1" and r: "k \<le> i \<and> i < k + length (heli_loc # rest)"
    show "(e1 ! i, e2 ! i, e3 ! i) =
               (case best_loop calculate_distance fire_loc ((heli_loc # rest) ! (i - k)) near None (0, 0, 0) of
                  (c1, c2, c3) \<Rightarrow> (d1 ! i @ [c1], d2 ! i @ [c2], d3 ! i @ [c3]))"
    proof (cases "i = k")
      case True
      then have "(e1 ! i, e2 ! i, e3 ! i) = (d1' ! i, d2' ! i, d3' ! i)"
        using ih i len by simp
      then show ?thesis using True k bc by (simp add: d1'_def d2'_def d3'_def)
    next
      case False
      then have "Suc k \<le> i \<and> i < Suc k + length rest" using r by simp
      then have "(e1 ! i, e2 ! i, e3 ! i) =
               (case best_loop calculate_distance fire_loc (rest ! (i - Suc k)) near None (0, 0, 0) of
                  (c1, c2, c3) \<Rightarrow> (d1' ! i @ [c1], d2' ! i @ [c2], d3' ! i @ [c3]))"
        using ih i len by simp
      moreover have "(heli_loc # rest) ! (i - k) = rest ! (i - Suc k)"
      proof -
        have "i - k = Suc (i - Suc k)" using False r by arith
        then show ?thesis by simp
      qed
      moreover have "d1' ! i = d1 ! i" "d2' ! i = d2 ! i" "d3' ! i = d3 ! i"
        using False by (simp_all add: d1'_def d2'_def d3'_def)
      ultimately show ?thesis by simp
    qed
  next
    fix i assume i: "i < length d1" and r: "\<not> (k \<le> i \<and> i < k + length (heli_loc # rest))"
    then have "\<not> (Suc k \<le> i \<and> i < Suc k + length rest)" "i \<noteq> k" by auto
    then have "(e1 ! i, e2 ! i, e3 ! i) = (d1' ! i, d2' ! i, d3' ! i)"
      using ih i len by simp
    then show "(e1 ! i, e2 ! i, e3 ! i) = (d1 ! i, d2 ! i, d3 ! i)"
      using \<open>i \<noteq> k\<close> by (simp add: d1'_def d2'_def d3'_def)
  qed
qed

lemma heli_loop_all:
  assumes run: "heli_loop calculate_distance fire_loc (nearest_3 calculate_distance fire_loc water_pts) 0 helis (d1, d2, d3)
                  = (e1, e2, e3)"
    and lens: "length d1 = length helis" "length d2 = length helis"
      "length d3 = length helis"
  shows "length e1 = length helis \<and> length e2 = length helis \<and> length e3 = length helis
    \<and> (\<forall>h < length helis.
          e1 ! h = d1 ! h @ [fst (best_combo calculate_distance water_pts fire_loc (helis ! h))]
        \<and> e2 ! h = d2 ! h @ [fst (snd (best_combo calculate_distance water_pts fire_loc (helis ! h)))]
        \<and> e3 ! h = d3 ! h @ [snd (snd (best_combo calculate_distance water_pts fire_loc (helis ! h)))])"
proof -
  have pre: "0 + length helis \<le> length d1" "length d2 = length d1" "length d3 = length d1"
    using lens by simp_all
  note rows = heli_loop_rows [OF run pre]
  have "e1 ! h = d1 ! h @ [fst (best_combo calculate_distance water_pts fire_loc (helis ! h))]
        \<and> e2 ! h = d2 ! h @ [fst (snd (best_combo calculate_distance water_pts fire_loc (helis ! h)))]
        \<and> e3 ! h = d3 ! h @ [snd (snd (best_combo calculate_distance water_pts fire_loc (helis ! h)))]"
    if h: "h < length helis" for h
  proof -
    have "(e1 ! h, e2 ! h, e3 ! h) =
               (case best_loop calculate_distance fire_loc (helis ! h) (nearest_3 calculate_distance fire_loc water_pts) None (0, 0, 0) of
                  (c1, c2, c3) \<Rightarrow> (d1 ! h @ [c1], d2 ! h @ [c2], d3 ! h @ [c3]))"
      using rows lens h by simp
    then show ?thesis
      by (simp add: best_combo_def split: prod.splits)
  qed
  moreover have "length e1 = length helis" "length e2 = length helis" "length e3 = length helis"
    using rows lens by simp_all
  ultimately show ?thesis by blast
qed

lemma fire_loop_rows:
  assumes "fire_loop calculate_distance water_pts helis fires (d1, d2, d3) = (e1, e2, e3)"
    and "length d1 = length helis" "length d2 = length helis" "length d3 = length helis"
  shows "length e1 = length helis \<and> length e2 = length helis \<and> length e3 = length helis
    \<and> (\<forall>h < length helis.
          e1 ! h = d1 ! h @ map (\<lambda>fl. fst (best_combo calculate_distance water_pts fl (helis ! h))) fires
        \<and> e2 ! h = d2 ! h @ map (\<lambda>fl. fst (snd (best_combo calculate_distance water_pts fl (helis ! h)))) fires
        \<and> e3 ! h = d3 ! h @ map (\<lambda>fl. snd (snd (best_combo calculate_distance water_pts fl (helis ! h)))) fires)"
  using assms
proof (induction fires arbitrary: d1 d2 d3)
  case Nil
  then show ?case by simp
next
  case (Cons fire_loc fires)
  obtain m1 m2 m3 where
    hl: "heli_loop calculate_distance fire_loc (nearest_3 calculate_distance fire_loc water_pts) 0 helis (d1, d2, d3) = (m1, m2, m3)"
    by (cases "heli_loop calculate_distance fire_loc (nearest_3 calculate_distance fire_loc water_pts) 0 helis (d1, d2, d3)")
  note mid = heli_loop_all [OF hl Cons.prems(2-4)]
  have step: "fire_loop calculate_distance water_pts helis fires (m1, m2, m3) = (e1, e2, e3)"
    using Cons.prems(1) hl by simp
  have ih: "length e1 = length helis \<and> length e2 = length helis \<and> length e3 = length helis
    \<and> (\<forall>h < length helis.
          e1 ! h = m1 ! h @ map (\<lambda>fl. fst (best_combo calculate_distance water_pts fl (helis ! h))) fires
        \<and> e2 ! h = m2 ! h @ map (\<lambda>fl. fst (snd (best_combo calculate_distance water_pts fl (helis ! h)))) fires
        \<and> e3 ! h = m3 ! h @ map (\<lambda>fl. snd (snd (best_combo calculate_distance water_pts fl (helis ! h)))) fires)"
    using mid by (intro Cons.IH [OF step]) simp_all
  show ?case
    using ih mid by simp
qed

lemma router_cells:
  assumes run: "find_optimal_water_sources calculate_distance fire_coords water_pts helis = (printed, d1, d2, d3)"
    and ne: "fire_coords \<noteq> []" "helis \<noteq> []"
  shows "printed = fst (effective_water fire_coords water_pts)
    \<and> length d1 = length helis \<and> length d2 = length helis \<and> length d3 = length helis
    \<and> (\<forall>h < length helis.
          length (d1 ! h) = length fire_coords \<and> length (d2 ! h) = length fire_coords
        \<and> length (d3 ! h) = length fire_coords
        \<and> (\<forall>f < length fire_coords.
              (d1 ! h ! f, d2 ! h ! f, d3 ! h ! f) =
                best_combo calculate_distance (snd (effective_water fire_coords water_pts))
                  (fire_coords ! f) (helis ! h)))"
proof -
  obtain pr w where ew: "effective_water fire_coords water_pts = (pr, w)"
    by (cases "effective_water fire_coords water_pts")
  define z :: matrix where "z = replicate (length helis) []"
  have fl: "fire_loop calculate_distance w helis fire_coords (z, z, z) = (d1, d2, d3)" and pr: "printed = pr"
    using run ne ew by (simp_all add: find_optimal_water_sources_def Let_def z_def)
  have "length z = length helis" by (simp add: z_def)
  note rows = fire_loop_rows [OF fl this this this]
  show ?thesis
    using rows pr ew by (simp add: z_def)
qed

lemma effective_water_nonempty:
  "fire_coords \<noteq> [] \<Longrightarrow> snd (effective_water fire_coords water_pts) \<noteq> []"
  by (simp add: effective_water_def dummy_water_def)

lemma nearest_3_nonempty:
  "water_pts \<noteq> [] \<Longrightarrow> nearest_3 calculate_distance fire_loc water_pts \<noteq> []"
  by (cases water_pts) (simp_all add: nearest_3_def dist_list_def take_Suc_conv_app_nth
      flip: length_greater_0_conv)

lemma nearest_3_member:
  "c \<in> set (nearest_3 calculate_distance fire_loc water_pts) \<Longrightarrow> snd c = calculate_distance fire_loc (fst c)"
proof -
  assume "c \<in> set (nearest_3 calculate_distance fire_loc water_pts)"
  then have "c \<in> set (sort_key snd (dist_list calculate_distance fire_loc water_pts))"
    unfolding nearest_3_def by (rule in_set_takeD)
  then show ?thesis by (auto simp: dist_list_def)
qed

lemma best_combo_first_min:
  assumes "water_pts \<noteq> []"
    and "cands = smallest_first 3 snd (dist_list calculate_distance fire_loc water_pts)"
  shows "\<exists>i < length cands.
      best_combo calculate_distance water_pts fire_loc heli_loc =
        (calculate_distance heli_loc (fst (cands ! i)), snd (cands ! i), calculate_distance fire_loc heli_loc)
    \<and> snd (cands ! i) = calculate_distance fire_loc (fst (cands ! i))
    \<and> (\<forall>j < length cands. round_trip calculate_distance fire_loc heli_loc (cands ! i)
                              \<le> round_trip calculate_distance fire_loc heli_loc (cands ! j))
    \<and> (\<forall>j < i. round_trip calculate_distance fire_loc heli_loc (cands ! i)
                   < round_trip calculate_distance fire_loc heli_loc (cands ! j))"
proof -
  have eq: "nearest_3 calculate_distance fire_loc water_pts = cands"
    using assms(2) by (simp add: nearest_3_smallest_first)
  have ne: "cands \<noteq> []" using nearest_3_nonempty [OF assms(1)] eq by metis
  from arg_min_list_first [OF ne, of "round_trip calculate_distance fire_loc heli_loc"]
  obtain i where i: "i < length cands"
    "arg_min_list (round_trip calculate_distance fire_loc heli_loc) cands = cands ! i"
    "\<forall>j < length cands. round_trip calculate_distance fire_loc heli_loc (cands ! i)
                              \<le> round_trip calculate_distance fire_loc heli_loc (cands ! j)"
    "\<forall>j < i. round_trip calculate_distance fire_loc heli_loc (cands ! i)
                   < round_trip calculate_distance fire_loc heli_loc (cands ! j)"
    by blast
  have "best_combo calculate_distance water_pts fire_loc heli_loc = legs calculate_distance fire_loc heli_loc (cands ! i)"
    using best_loop_None [OF ne] i(2) by (simp add: best_combo_def eq)
  moreover have "cands ! i \<in> set (nearest_3 calculate_distance fire_loc water_pts)"
    using i(1) eq by simp
  then have "snd (cands ! i) = calculate_distance fire_loc (fst (cands ! i))" by (rule nearest_3_member)
  ultimately show ?thesis using i by (auto simp: legs_def)
qed

lemma router_cell_choice:
  assumes run: "find_optimal_water_sources calculate_distance fire_coords water_pts helis = (printed, d1, d2, d3)"
    and h: "h < length helis" and f: "f < length fire_coords"
    and cands: "cands = smallest_first 3 snd
        (dist_list calculate_distance (fire_coords ! f) (snd (effective_water fire_coords water_pts)))"
  shows "\<exists>i < length cands.
      d1 ! h ! f = calculate_distance (helis ! h) (fst (cands ! i))
    \<and> d2 ! h ! f = snd (cands ! i)
    \<and> d2 ! h ! f = calculate_distance (fire_coords ! f) (fst (cands ! i))
    \<and> d3 ! h ! f = calculate_distance (fire_coords ! f) (helis ! h)
    \<and> (\<forall>j < length cands. round_trip calculate_distance (fire_coords ! f) (helis ! h) (cands ! i)
                              \<le> round_trip calculate_distance (fire_coords ! f) (helis ! h) (cands ! j))
    \<and> (\<forall>j < i. round_trip calculate_distance (fire_coords ! f) (helis ! h) (cands ! i)
                   < round_trip calculate_distance (fire_coords ! f) (helis ! h) (cands ! j))"
proof -
  have ne: "fire_coords \<noteq> []" "helis \<noteq> []" using h f by auto
  have cell: "(d1 ! h ! f, d2 ! h ! f, d3 ! h ! f) =
      best_combo calculate_distance (snd (effective_water fire_coords water_pts)) (fire_coords ! f) (helis ! h)"
    using router_cells [OF run ne] h f by simp
  from best_combo_first_min [OF effective_water_nonempty [OF ne(1)] cands, of "helis ! h"]
  obtain i where i: "i < length cands"
    "best_combo calculate_distance (snd (effective_water fire_coords water_pts)) (fire_coords ! f) (helis ! h) =
        (calculate_distance (helis ! h) (fst (cands ! i)), snd (cands ! i), calculate_distance (fire_coords ! f) (helis ! h))"
    "snd (cands ! i) = calculate_distance (fire_coords ! f) (fst (cands ! i))"
    "\<forall>j < length cands. round_trip calculate_distance (fire_coords ! f) (helis ! h) (cands ! i)
                              \<le> round_trip calculate_distance (fire_coords ! f) (helis ! h) (cands ! j)"
    "\<forall>j < i. round_trip calculate_distance (fire_coords ! f) (helis ! h) (cands ! i)
                   < round_trip calculate_distance (fire_coords ! f) (helis ! h) (cands ! j)"
    by blast
  have "d1 ! h ! f = calculate_distance (helis ! h) (fst (cands ! i))" "d2 ! h ! f = snd (cands ! i)"
    "d3 ! h ! f = calculate_distance (fire_coords ! f) (helis ! h)"
    using cell i(2) by simp_all
  then show ?thesis using i by auto
qed





text \<open>
  C7. With fires and helicopters but an empty water catalog, the router prints its warning
  once and returns what it returns on the catalog of dummy sources, one per fire, at the
  fire's latitude and longitude plus 0.01 each. The three matrices have a row per
  helicopter and an entry per fire, and every entry is non-negative when the distance
  function is. The router has no raising step; reals are all finite.
\<close>

theorem no_water_fallback:
  assumes ne: "fire_coords \<noteq> []" "helis \<noteq> []"
    and nonneg: "\<forall>a b. 0 \<le> calculate_distance a b"
  shows "\<exists>d1 d2 d3.
      find_optimal_water_sources calculate_distance fire_coords [] helis = ([NoWaterSources], d1, d2, d3)
    \<and> find_optimal_water_sources calculate_distance fire_coords (dummy_water fire_coords) helis = ([], d1, d2, d3)
    \<and> length (dummy_water fire_coords) = length fire_coords
    \<and> (\<forall>f < length fire_coords.
          dummy_water fire_coords ! f
            = (fst (fire_coords ! f) + 1 / 100, snd (fire_coords ! f) + 1 / 100))
    \<and> length d1 = length helis \<and> length d2 = length helis \<and> length d3 = length helis
    \<and> (\<forall>h < length helis.
          length (d1 ! h) = length fire_coords \<and> length (d2 ! h) = length fire_coords
        \<and> length (d3 ! h) = length fire_coords
        \<and> (\<forall>f < length fire_coords. 0 \<le> d1 ! h ! f \<and> 0 \<le> d2 ! h ! f \<and> 0 \<le> d3 ! h ! f))"
proof -
  obtain printed d1 d2 d3 where
    run: "find_optimal_water_sources calculate_distance fire_coords [] helis = (printed, d1, d2, d3)"
    by (cases "find_optimal_water_sources calculate_distance fire_coords [] helis") auto
  note cells = router_cells [OF run ne]
  have printed: "printed = [NoWaterSources]"
    using cells by (simp add: effective_water_def)
  have dne: "dummy_water fire_coords \<noteq> []" using ne(1) by (simp add: dummy_water_def)
  have same: "find_optimal_water_sources calculate_distance fire_coords (dummy_water fire_coords) helis
      = ([], d1, d2, d3)"
    using run ne dne by (simp add: find_optimal_water_sources_def effective_water_def Let_def)
  have dummy: "\<forall>f < length fire_coords.
          dummy_water fire_coords ! f
            = (fst (fire_coords ! f) + 1 / 100, snd (fire_coords ! f) + 1 / 100)"
    by (simp add: dummy_water_def case_prod_beta)
  have pos: "0 \<le> d1 ! h ! f \<and> 0 \<le> d2 ! h ! f \<and> 0 \<le> d3 ! h ! f"
    if "h < length helis" "f < length fire_coords" for h f
  proof -
    from router_cell_choice [OF run that refl] obtain w where
      "d1 ! h ! f = calculate_distance (helis ! h) w" "d2 ! h ! f = calculate_distance (fire_coords ! f) w"
      "d3 ! h ! f = calculate_distance (fire_coords ! f) (helis ! h)"
      by blast
    moreover have "0 \<le> calculate_distance a b" for a b using nonneg by blast
    ultimately show ?thesis by simp
  qed
  show ?thesis
    using run printed same dummy cells pos by (simp add: dummy_water_def)
qed

lemma demo_dist_nonneg: "\<forall>a b. 0 \<le> demo_dist a b"
  by (simp add: demo_dist_def)

text \<open>Two fires, one helicopter, no water source.\<close>

theorem no_water_fallback_witness:
  "\<exists>d1 d2 d3.
      find_optimal_water_sources demo_dist [(0, 0), (2, 2)] [] [(1, 0)] = ([NoWaterSources], d1, d2, d3)
    \<and> dummy_water [(0, 0), (2, 2)] = [(1 / 100, 1 / 100), (201 / 100, 201 / 100)]
    \<and> length d1 = 1 \<and> length (d1 ! 0) = 2 \<and> 0 \<le> d1 ! 0 ! 1 \<and> 0 \<le> d2 ! 0 ! 1 \<and> 0 \<le> d3 ! 0 ! 1"
proof -
  have ne: "[(0::real, 0::real), (2, 2)] \<noteq> []" "[(1::real, 0::real)] \<noteq> []" by simp_all
  from no_water_fallback [OF ne demo_dist_nonneg]
  obtain d1 d2 d3 where
    "find_optimal_water_sources demo_dist [(0, 0), (2, 2)] [] [(1, 0)] = ([NoWaterSources], d1, d2, d3)"
    "length d1 = length [(1::real, 0::real)]"
    "\<forall>h < length [(1::real, 0::real)].
          length (d1 ! h) = length [(0::real, 0::real), (2, 2)]
        \<and> length (d2 ! h) = length [(0::real, 0::real), (2, 2)]
        \<and> length (d3 ! h) = length [(0::real, 0::real), (2, 2)]
        \<and> (\<forall>f < length [(0::real, 0::real), (2, 2)].
              0 \<le> d1 ! h ! f \<and> 0 \<le> d2 ! h ! f \<and> 0 \<le> d3 ! h ! f)"
    by blast
  moreover have "dummy_water [(0, 0), (2, 2)] = [(1 / 100, 1 / 100), (201 / 100, 201 / 100)]"
    by (simp add: dummy_water_def)
  ultimately show ?thesis by (intro exI [of _ d1] exI [of _ d2] exI [of _ d3]) simp
qed

section \<open>The greedy dispatch\<close>

lemma fires_loop_snoc:
  "fires_loop calculate_distance max_range rows draw k (fs @ [fr]) st
     = dispatch_fire calculate_distance max_range rows (draw (k + length fs)) fr (fires_loop calculate_distance max_range rows draw k fs st)"
  by (induction fs arbitrary: k st) simp_all

lemma dispatch_run_snoc:
  "dispatch_run calculate_distance max_range rows draw (fs @ [fr])
     = dispatch_fire calculate_distance max_range rows (draw (length fs)) fr (dispatch_run calculate_distance max_range rows draw fs)"
  by (simp add: dispatch_run_def fires_loop_snoc)

lemma labelled_rows:
  "length available = length rows \<Longrightarrow>
   zip [0 ..< length rows] (zip rows available)
     = map (\<lambda>i. (i, rows ! i, available ! i)) [0 ..< length rows]"
  by (intro nth_equalityI) simp_all

lemma near_heli_member:
  assumes "length available = length rows"
  shows "(l, hp, a) \<in> set (near_heli calculate_distance max_range fr rows available) \<longleftrightarrow>
     l < length rows \<and> hp = rows ! l \<and> a = available ! l \<and> base_distance calculate_distance fr (rows ! l) \<le> max_range"
  using assms by (auto simp: near_heli_def labelled_rows)

lemma near_heli_distinct:
  assumes "length available = length rows"
  shows "distinct (map fst (near_heli calculate_distance max_range fr rows available))"
proof -
  let ?zs = "zip [0 ..< length rows] (zip rows available)"
  let ?P = "\<lambda>(label, hp, a). base_distance calculate_distance fr hp \<le> max_range"
  let ?k = "\<lambda>(label :: nat, hp, a :: int). base_distance calculate_distance fr hp"
  have "distinct (map fst ?zs)" using assms by simp
  then have "distinct (map fst (filter ?P ?zs))" by (rule distinct_map_filter)
  moreover have "mset (map fst (sort_key ?k (filter ?P ?zs))) = mset (map fst (filter ?P ?zs))"
    by simp
  ultimately show ?thesis
    unfolding near_heli_def using mset_eq_imp_distinct_iff by blast
qed

lemma near_heli_empty_iff:
  assumes "length available = length rows"
  shows "near_heli calculate_distance max_range fr rows available = [] \<longleftrightarrow>
     (\<forall>i < length rows. max_range < base_distance calculate_distance fr (rows ! i))"
proof
  assume empty: "near_heli calculate_distance max_range fr rows available = []"
  show "\<forall>i < length rows. max_range < base_distance calculate_distance fr (rows ! i)"
  proof (intro allI impI, rule ccontr)
    fix i assume "i < length rows" "\<not> max_range < base_distance calculate_distance fr (rows ! i)"
    then have "(i, rows ! i, available ! i) \<in> set (near_heli calculate_distance max_range fr rows available)"
      by (simp add: near_heli_member [OF assms])
    then show False using empty by simp
  qed
next
  assume far: "\<forall>i < length rows. max_range < base_distance calculate_distance fr (rows ! i)"
  show "near_heli calculate_distance max_range fr rows available = []"
  proof (rule ccontr)
    assume "near_heli calculate_distance max_range fr rows available \<noteq> []"
    then obtain x where "x \<in> set (near_heli calculate_distance max_range fr rows available)"
      by (cases "near_heli calculate_distance max_range fr rows available") auto
    moreover obtain l hp a where "x = (l, hp, a)" by (cases x)
    ultimately have "l < length rows" "base_distance calculate_distance fr (rows ! l) \<le> max_range"
      by (simp_all add: near_heli_member [OF assms])
    then show False using far by fastforce
  qed
qed

lemma near_heli_sum:
  assumes "length available = length rows"
  shows "sum_list (map (\<lambda>(label, hp, a). a) (near_heli calculate_distance max_range fr rows available))
     = (\<Sum>i \<leftarrow> [0 ..< length rows].
          if base_distance calculate_distance fr (rows ! i) \<le> max_range then available ! i else 0)"
proof -
  let ?zs = "zip [0 ..< length rows] (zip rows available)"
  let ?P = "\<lambda>(label :: nat, hp, a :: int). base_distance calculate_distance fr hp \<le> max_range"
  let ?k = "\<lambda>(label :: nat, hp, a :: int). base_distance calculate_distance fr hp"
  let ?g = "\<lambda>(label :: nat, hp :: base_row, a :: int). a"
  have "mset (map ?g (sort_key ?k (filter ?P ?zs))) = mset (map ?g (filter ?P ?zs))"
    by simp
  then have "sum_mset (mset (map ?g (sort_key ?k (filter ?P ?zs))))
      = sum_mset (mset (map ?g (filter ?P ?zs)))"
    by (rule arg_cong)
  then have "sum_list (map ?g (sort_key ?k (filter ?P ?zs))) = sum_list (map ?g (filter ?P ?zs))"
    by (simp only: sum_mset_sum_list)
  also have "\<dots> = sum_list (map (\<lambda>x. if ?P x then ?g x else 0) ?zs)"
    by (rule sum_list_map_filter')
  also have "\<dots> = (\<Sum>i \<leftarrow> [0 ..< length rows].
          if base_distance calculate_distance fr (rows ! i) \<le> max_range then available ! i else 0)"
    by (simp add: labelled_rows [OF assms] comp_def cong: if_cong)
  finally show ?thesis by (simp add: near_heli_def)
qed

lemma allocate_ledger:
  assumes "allocate fr near needed (available, dlog) = (available', dlog')"
    and "distinct (map fst near)"
    and "\<forall>(l, hp, a) \<in> set near. l < length available \<and> a = available ! l"
  shows "length available' = length available
     \<and> (\<forall>i < length available. available' ! i \<le> available ! i
            \<and> (0 \<le> available ! i \<longrightarrow> 0 \<le> available' ! i))"
  using assms
proof (induction near arbitrary: needed available dlog)
  case Nil
  then show ?case by simp
next
  case (Cons x near)
  obtain l hp a where x: "x = (l, hp, a)" by (cases x)
  have l: "l < length available" "a = available ! l" using Cons.prems(3) x by auto
  have dist: "distinct (map fst near)" "l \<notin> fst ` set near" using Cons.prems(2) x by auto
  show ?case
  proof (cases "needed \<le> 0")
    case True
    then show ?thesis using Cons.prems(1) x by simp
  next
    case pos: False
    show ?thesis
    proof (cases "a > 0")
      case False
      then have skip: "allocate fr near needed (available, dlog) = (available', dlog')"
        using Cons.prems(1) pos x by simp
      have same: "\<forall>(l, hp, a) \<in> set near. l < length available \<and> a = available ! l"
        using Cons.prems(3) by simp
      show ?thesis by (rule Cons.IH [OF skip dist(1) same])
    next
      case True
      define to_send where "to_send = min needed a"
      define mid where "mid = available[l := available ! l - to_send]"
      have ts: "0 < to_send" "to_send \<le> a" using pos True by (simp_all add: to_send_def)
      obtain dlog2 where step: "allocate fr near (needed - to_send) (mid, dlog2) = (available', dlog')"
        using Cons.prems(1) pos True x by (simp add: Let_def to_send_def mid_def)
      have keep: "\<forall>(l', hp', a') \<in> set near. l' < length mid \<and> a' = mid ! l'"
      proof (clarify)
        fix l' hp' a' assume m: "(l', hp', a') \<in> set near"
        then have "l' \<noteq> l" using dist(2) by force
        moreover have "l' < length available \<and> a' = available ! l'"
          using Cons.prems(3) m by auto
        ultimately show "l' < length mid \<and> a' = mid ! l'" by (simp add: mid_def)
      qed
      note ih = Cons.IH [OF step dist(1) keep]
      have len: "length mid = length available" by (simp add: mid_def)
      have midi: "mid ! i \<le> available ! i \<and> (0 \<le> available ! i \<longrightarrow> 0 \<le> mid ! i)"
        if "i < length available" for i
        using that ts l by (cases "i = l") (simp_all add: mid_def)
      show ?thesis
      proof (intro conjI allI impI)
        show "length available' = length available" using ih len by simp
      next
        fix i assume i: "i < length available"
        then have "available' ! i \<le> mid ! i" using ih len by simp
        then show "available' ! i \<le> available ! i"
          using midi [OF i] by simp
      next
        fix i assume i: "i < length available" and "0 \<le> available ! i"
        then have "0 \<le> mid ! i" using midi [OF i] by simp
        then show "0 \<le> available' ! i"
          using ih len i by simp
      qed
    qed
  qed
qed

lemma dispatch_fire_ledger:
  assumes "dispatch_fire calculate_distance max_range rows needed fr (available, dlog) = (available', dlog')"
    and "length available = length rows"
  shows "length available' = length available
     \<and> (\<forall>i < length available. available' ! i \<le> available ! i
            \<and> (0 \<le> available ! i \<longrightarrow> 0 \<le> available' ! i))"
proof (cases "near_heli calculate_distance max_range fr rows available = []
    \<or> sum_list (map (\<lambda>(label, hp, a). a) (near_heli calculate_distance max_range fr rows available)) < needed")
  case True
  then have "available' = available"
    using assms(1) by (auto simp: dispatch_fire_def Let_def split: if_splits)
  then show ?thesis by simp
next
  case False
  then have "allocate fr (near_heli calculate_distance max_range fr rows available) needed (available, dlog)
      = (available', dlog')"
    using assms(1) by (auto simp: dispatch_fire_def Let_def)
  moreover have "\<forall>(l, hp, a) \<in> set (near_heli calculate_distance max_range fr rows available).
      l < length available \<and> a = available ! l"
    using near_heli_member [OF assms(2)] assms(2) by auto
  ultimately show ?thesis
    using near_heli_distinct [OF assms(2)] by (intro allocate_ledger)
qed

lemma dispatch_run_length:
  "length (fst (dispatch_run calculate_distance max_range rows draw fs)) = length rows"
proof (induction fs rule: rev_induct)
  case Nil
  then show ?case by (simp add: dispatch_run_def)
next
  case (snoc fr fs)
  obtain available dlog where st: "dispatch_run calculate_distance max_range rows draw fs = (available, dlog)"
    by (cases "dispatch_run calculate_distance max_range rows draw fs")
  obtain available' dlog' where
    st': "dispatch_fire calculate_distance max_range rows (draw (length fs)) fr (available, dlog) = (available', dlog')"
    by (cases "dispatch_fire calculate_distance max_range rows (draw (length fs)) fr (available, dlog)")
  have "length available = length rows" using snoc st by simp
  from dispatch_fire_ledger [OF st' this] this show ?case
    by (simp add: dispatch_run_snoc st st')
qed

lemma dispatch_run_step:
  assumes "i < length rows"
  shows "fst (dispatch_run calculate_distance max_range rows draw (fs @ [fr])) ! i \<le> fst (dispatch_run calculate_distance max_range rows draw fs) ! i
    \<and> (0 \<le> fst (dispatch_run calculate_distance max_range rows draw fs) ! i
         \<longrightarrow> 0 \<le> fst (dispatch_run calculate_distance max_range rows draw (fs @ [fr])) ! i)"
proof -
  obtain available dlog where st: "dispatch_run calculate_distance max_range rows draw fs = (available, dlog)"
    by (cases "dispatch_run calculate_distance max_range rows draw fs")
  obtain available' dlog' where
    st': "dispatch_fire calculate_distance max_range rows (draw (length fs)) fr (available, dlog) = (available', dlog')"
    by (cases "dispatch_fire calculate_distance max_range rows (draw (length fs)) fr (available, dlog)")
  have len: "length available = length rows"
    using dispatch_run_length [of calculate_distance max_range rows draw fs] st by simp
  from dispatch_fire_ledger [OF st' len] assms len show ?thesis
    by (simp add: dispatch_run_snoc st st')
qed

lemma dispatch_run_bounds:
  assumes "\<forall>b \<in> set rows. 0 \<le> helicopters b" and "i < length rows"
  shows "0 \<le> fst (dispatch_run calculate_distance max_range rows draw fs) ! i
    \<and> fst (dispatch_run calculate_distance max_range rows draw fs) ! i \<le> helicopters (rows ! i)"
proof (induction fs rule: rev_induct)
  case Nil
  then show ?case using assms by (simp add: dispatch_run_def)
next
  case (snoc fr fs)
  then show ?case
    using dispatch_run_step [OF assms(2), of calculate_distance max_range draw fs fr] by linarith
qed

text \<open>
  C8. At any point of a greedy run, with the ledger and the log as the fires so far have
  left them: if every base is farther from the next fire than the maximum range, the run
  adds exactly one row, which carries the fire's name, the text for no initial response in
  the base column, \<^verbatim>\<open>N/A\<close> as the model and the count 0, and leaves the ledger as it is; if
  some base is in range but the remaining availability of the bases in range sums to less
  than the number drawn for the fire, it adds exactly one row, the same but for the text
  for no additional dispatch in the base column, and leaves the ledger as it is.
\<close>

theorem greedy_markers:
  assumes "dispatch_run calculate_distance max_range rows draw pre = (available, dlog)"
  shows "((\<forall>i < length rows. max_range < base_distance calculate_distance fr (rows ! i)) \<longrightarrow>
            dispatch_run calculate_distance max_range rows draw (pre @ [fr])
              = (available,
                 dlog @ [\<lparr>log_fire = name fr, log_base = NoInitialResponse,
                          log_model = ''N/A'', log_count = Zero\<rparr>]))
     \<and> ((\<exists>i < length rows. base_distance calculate_distance fr (rows ! i) \<le> max_range)
          \<and> (\<Sum>i \<leftarrow> [0 ..< length rows].
                if base_distance calculate_distance fr (rows ! i) \<le> max_range then available ! i else 0)
              < draw (length pre) \<longrightarrow>
            dispatch_run calculate_distance max_range rows draw (pre @ [fr])
              = (available,
                 dlog @ [\<lparr>log_fire = name fr, log_base = NoAdditionalDispatch,
                          log_model = ''N/A'', log_count = Zero\<rparr>]))"
proof -
  have len: "length available = length rows"
    using dispatch_run_length [of calculate_distance max_range rows draw pre] assms by simp
  have step: "dispatch_run calculate_distance max_range rows draw (pre @ [fr])
      = dispatch_fire calculate_distance max_range rows (draw (length pre)) fr (available, dlog)"
    by (simp add: dispatch_run_snoc assms)
  have a: "dispatch_fire calculate_distance max_range rows (draw (length pre)) fr (available, dlog)
      = (available, dlog @ [marker fr NoInitialResponse])"
    if "\<forall>i < length rows. max_range < base_distance calculate_distance fr (rows ! i)"
    using that by (simp add: dispatch_fire_def near_heli_empty_iff [OF len])
  have b: "dispatch_fire calculate_distance max_range rows (draw (length pre)) fr (available, dlog)
      = (available, dlog @ [marker fr NoAdditionalDispatch])"
    if "\<exists>i < length rows. base_distance calculate_distance fr (rows ! i) \<le> max_range"
      and "(\<Sum>i \<leftarrow> [0 ..< length rows].
                if base_distance calculate_distance fr (rows ! i) \<le> max_range then available ! i else 0)
              < draw (length pre)"
  proof -
    have "near_heli calculate_distance max_range fr rows available \<noteq> []"
      using that(1) by (simp add: near_heli_empty_iff [OF len] not_less)
    then show ?thesis
      using that(2) by (simp add: dispatch_fire_def Let_def near_heli_sum [OF len])
  qed
  show ?thesis using a b step by (simp add: marker_def)
qed

lemma demo_start: "dispatch_run demo_dist 5 demo_bases (\<lambda>k. 3) [] = ([2, 1], [])"
  by (simp add: dispatch_run_def demo_bases_def)

text \<open>
  With range 5 and three helicopters needed: the far fire has no base in range; the near
  fire has only the first base in range, which has two helicopters.
\<close>

theorem greedy_markers_witness:
  "dispatch_run demo_dist 5 demo_bases (\<lambda>k. 3) [demo_far]
     = ([2, 1], [\<lparr>log_fire = ''F2'', log_base = NoInitialResponse,
                   log_model = ''N/A'', log_count = Zero\<rparr>])
   \<and> dispatch_run demo_dist 5 demo_bases (\<lambda>k. 3) [demo_near]
     = ([2, 1], [\<lparr>log_fire = ''F1'', log_base = NoAdditionalDispatch,
                   log_model = ''N/A'', log_count = Zero\<rparr>])"
proof -
  have far: "\<forall>i < length demo_bases. 5 < base_distance demo_dist demo_far (demo_bases ! i)"
    by (simp add: demo_bases_def demo_far_def demo_fire_def base_distance_def demo_dist_def
        All_less_Suc)
  have near: "\<exists>i < length demo_bases. base_distance demo_dist demo_near (demo_bases ! i) \<le> 5"
    by (intro exI [of _ 0])
      (simp add: demo_bases_def demo_near_def demo_fire_def base_distance_def demo_dist_def)
  have short: "(\<Sum>i \<leftarrow> [0 ..< length demo_bases].
        if base_distance demo_dist demo_near (demo_bases ! i) \<le> 5 then [2, 1] ! i else 0)
      < (3 :: int)"
    by (simp add: demo_bases_def demo_near_def demo_fire_def base_distance_def demo_dist_def)
  have names: "name demo_far = ''F2''" "name demo_near = ''F1''"
    by (simp_all add: demo_far_def demo_near_def demo_fire_def)
  show ?thesis
    using greedy_markers [OF demo_start, of demo_far] greedy_markers [OF demo_start, of demo_near]
      far near short by (simp add: names)
qed

text \<open>
  C10. When no base has a negative helicopter count, the ledger of a greedy run starts as
  the list of the bases' counts, keeps one entry per base, and after any list of fires
  every entry is non-negative, at most the base's count, and not raised by the next fire.
\<close>

theorem ledger_invariant:
  assumes "\<forall>b \<in> set rows. 0 \<le> helicopters b"
  shows "fst (dispatch_run calculate_distance max_range rows draw []) = map helicopters rows
     \<and> length (fst (dispatch_run calculate_distance max_range rows draw fires)) = length rows
     \<and> (\<forall>i < length rows.
           0 \<le> fst (dispatch_run calculate_distance max_range rows draw fires) ! i
         \<and> fst (dispatch_run calculate_distance max_range rows draw fires) ! i \<le> helicopters (rows ! i)
         \<and> fst (dispatch_run calculate_distance max_range rows draw (fires @ [fr])) ! i
             \<le> fst (dispatch_run calculate_distance max_range rows draw fires) ! i)"
  using dispatch_run_bounds [OF assms] dispatch_run_step dispatch_run_length
  by (simp add: dispatch_run_def)

lemma demo_ledger:
  "fst (dispatch_run demo_dist 5 demo_bases (\<lambda>k. 2) [demo_near]) = [0, 1]"
  by (simp add: dispatch_run_def dispatch_fire_def near_heli_def demo_bases_def demo_near_def
      demo_fire_def base_distance_def demo_dist_def Let_def)

text \<open>Two helicopters needed by the near fire twice: the first base goes from 2 to 0 and stays.\<close>

theorem ledger_invariant_witness:
  "fst (dispatch_run demo_dist 5 demo_bases (\<lambda>k. 2) []) = [2, 1]
   \<and> fst (dispatch_run demo_dist 5 demo_bases (\<lambda>k. 2) [demo_near]) = [0, 1]
   \<and> 0 \<le> fst (dispatch_run demo_dist 5 demo_bases (\<lambda>k. 2) ([demo_near] @ [demo_near])) ! 0
   \<and> fst (dispatch_run demo_dist 5 demo_bases (\<lambda>k. 2) ([demo_near] @ [demo_near])) ! 0 \<le> 0"
proof -
  have nominal: "\<forall>b \<in> set demo_bases. 0 \<le> helicopters b"
    by (simp add: demo_bases_def)
  have i: "0 < length demo_bases" by (simp add: demo_bases_def)
  from ledger_invariant [OF nominal, of demo_dist 5 "\<lambda>k. 2" "[demo_near] @ [demo_near]" demo_near]
  have "0 \<le> fst (dispatch_run demo_dist 5 demo_bases (\<lambda>k. 2) ([demo_near] @ [demo_near])) ! 0"
    using i by blast
  moreover from ledger_invariant [OF nominal, of demo_dist 5 "\<lambda>k. 2" "[demo_near]" demo_near]
  have "fst (dispatch_run demo_dist 5 demo_bases (\<lambda>k. 2) ([demo_near] @ [demo_near])) ! 0
      \<le> fst (dispatch_run demo_dist 5 demo_bases (\<lambda>k. 2) [demo_near]) ! 0"
    and "fst (dispatch_run demo_dist 5 demo_bases (\<lambda>k. 2) []) = map helicopters demo_bases"
    using i by blast+
  ultimately show ?thesis
    using demo_ledger by (simp add: demo_bases_def)
qed

section \<open>The optimized dispatch\<close>









subsection \<open>Two concrete runs\<close>


lemma demo_swapped_groups:
  "group_by_time_proximity demo_strptime 10 demo_swapped = Inr [[1, 0]]"
  by (simp add: group_by_time_proximity_def demo_swapped_def demo_fire_def demo_strptime_def
      dt_str_def final_group_def)



lemma demo_route_swapped:
  "find_optimal_water_sources demo_dist [(0, 2), (0, 1)] [(0, 1)] [(0, 0)]
     = ([], [[1, 1]], [[1, 0]], [[2, 1]])"
  by (simp add: find_optimal_water_sources_def effective_water_def Let_def
      nearest_3_def dist_list_def demo_dist_def)


lemma demo_formulate_swapped:
  "\<exists>m. formulate demo_optimizer [1, 0] [1, 1] [[1, 1]] [[1, 0]] [[2, 1]]
         = Inr (m, [[15 / 4, 3 / 2]], [[5 / 2, 1]])
       \<and> H m = [0] \<and> F m = [0, 1]"
  by (simp add: formulate_def calculate_time_matrices_def table_err_def time_cell_def
      cost_cell_def arrival_cell_def leg_time_def nth_err_def py_div_def demo_optimizer_simps
      Let_def)



lemma demo_parse:
  assumes "H m = [0]" "F m = [0, 1]"
  shows "parse_solution demo_optimizer (\<lambda>x. x) (Some (m, demo_vals)) [[c0, c1]] [[t0, t1]]
           [[a0, a1]] [[b0, b1]] [[e0, e1]] k
         = Inr [demo_assignment (k + 1) a1 b1 e1 t1 c1]"
  by (simp add: parse_solution_def assms index_pairs_def parse_cell_def demo_vals_def
      nth2_err_def nth_err_def loc_def demo_optimizer_simps base_name_of_def demo_pads_def
      demo_row_def demo_assignment_def)


lemma demo_pass_swapped:
  "group_pass demo_optimizer demo_dist (\<lambda>x. x) demo_solve demo_swapped [(0, 1)] [1, 0]
     = Inr ([], [Committed (demo_assignment 1 1 0 1 1 (3 / 2)), Unaddressed 0])"
proof -
  obtain m where fm: "formulate demo_optimizer [1, 0] [1, 1] [[1, 1]] [[1, 0]] [[2, 1]]
         = Inr (m, [[15 / 4, 3 / 2]], [[5 / 2, 1]])"
    and sets: "H m = [0]" "F m = [0, 1]"
    using demo_formulate_swapped by blast
  have fires: "map_err (\<lambda>fidx. nth_err demo_swapped fidx) [1, 0]
      = Inr [demo_fire ''Y'' 0 2 ''10:00'' 1, demo_fire ''X'' 0 1 ''10:05'' 1]"
    by (simp add: nth_err_def demo_swapped_def)
  have solve: "demo_solve m = Solved optimal demo_vals"
    by (simp add: demo_solve_def sets)
  have built: "build_model demo_optimizer demo_solve [1, 0] [1, 1] [[1, 1]] [[1, 0]] [[2, 1]]
      = Inr ([], Some ((m, demo_vals), [[15 / 4, 3 / 2]], [[5 / 2, 1]]))"
    using fm solve by (simp add: build_model_def demo_optimizer_simps)
  show ?thesis
    using fires demo_route_swapped built demo_parse [OF sets]
    by (simp add: group_pass_def demo_fire_def demo_optimizer_simps
        handle_unassigned_def unassigned_fires_def demo_assignment_def)
qed


lemma demo_swapped_report:
  "dispatch_optimized demo_optimizer demo_dist (\<lambda>x. x) demo_solve demo_strptime 10 [(0, 1)] demo_swapped
     = Inr ([], [Unaddressed 1, Committed (demo_assignment 2 1 0 1 1 (3 / 2))])"
proof -
  have "demo_swapped \<noteq> []" by (simp add: demo_swapped_def)
  then show ?thesis
    using demo_swapped_groups demo_pass_swapped
    by (simp add: dispatch_optimized_def demo_optimizer_simps finalize_def demo_assignment_def)
qed


subsection \<open>The rows of the report\<close>



subsection \<open>Runs on which fires are not reported once\<close>














text \<open>
  C1. The fire index of a committed row is the least index of the group plus the fire's
  position in the group, which is the fire's index in the batch only when the group's
  indices are consecutive and ascending. On the second demo batch the group is [1, 0] and
  the solution sends the helicopter to position 1, the fire of index 0 (number 1 in the
  report); the report gives the committed row to number 2 and marks number 1 unaddressed.
\<close>

theorem fire_id_offset_mismatch:
  "group_by_time_proximity demo_strptime 10 demo_swapped = Inr [[1, 0]]
   \<and> demo_solve_assigns_position 1
   \<and> [1, 0 :: nat] ! 1 = 0
   \<and> dispatch_optimized demo_optimizer demo_dist (\<lambda>x. x) demo_solve demo_strptime 10 [(0, 1)]
        demo_swapped
      = Inr ([], [Unaddressed 1, Committed (demo_assignment 2 1 0 1 1 (3 / 2))])"
  using demo_swapped_groups demo_swapped_report
  by (simp add: demo_solve_assigns_position_def demo_vals_def)

end
